theory Spec2Isabelle
  imports Main
begin

section \<open>Python strings and values\<close>

text \<open>
  Strings are \<^typ>\<open>string\<close>; the characters that matter to the program (separators,
  dots, ASCII letters, ASCII whitespace, backticks) are single characters there.
\<close>

definition startswith :: "string \<Rightarrow> string \<Rightarrow> bool" where
  "startswith s p = (take (length p) s = p)"

definition endswith :: "string \<Rightarrow> string \<Rightarrow> bool" where
  "endswith s p = (length p \<le> length s \<and> drop (length s - length p) s = p)"

text \<open>\<open>str.isspace\<close> on the ASCII range: tab, LF, VT, FF, CR, FS, GS, RS, US and space.\<close>

definition is_space :: "char \<Rightarrow> bool" where
  "is_space c = (c \<in> set [CHR 0x09, CHR 0x0A, CHR 0x0B, CHR 0x0C, CHR 0x0D,
                            CHR 0x1C, CHR 0x1D, CHR 0x1E, CHR 0x1F, CHR '' ''])"

definition lstrip :: "string \<Rightarrow> string" where
  "lstrip s = dropWhile is_space s"

definition rstrip :: "string \<Rightarrow> string" where
  "rstrip s = rev (dropWhile is_space (rev s))"

definition strip :: "string \<Rightarrow> string" where
  "strip s = rstrip (lstrip s)"

text \<open>\<open>s.lstrip('.')\<close>\<close>

definition lstrip_dot :: "string \<Rightarrow> string" where
  "lstrip_dot s = dropWhile (\<lambda>c. c = CHR ''.'') s"

definition lower_char :: "char \<Rightarrow> char" where
  "lower_char c =
     (case map_of (zip ''ABCDEFGHIJKLMNOPQRSTUVWXYZ'' ''abcdefghijklmnopqrstuvwxyz'') c of
        Some l \<Rightarrow> l | None \<Rightarrow> c)"

definition upper_char :: "char \<Rightarrow> char" where
  "upper_char c =
     (case map_of (zip ''abcdefghijklmnopqrstuvwxyz'' ''ABCDEFGHIJKLMNOPQRSTUVWXYZ'') c of
        Some u \<Rightarrow> u | None \<Rightarrow> c)"

definition lower :: "string \<Rightarrow> string" where
  "lower s = map lower_char s"

definition upper :: "string \<Rightarrow> string" where
  "upper s = map upper_char s"

text \<open>\<open>sep.join(xs)\<close>\<close>

fun join :: "string \<Rightarrow> string list \<Rightarrow> string" where
  "join sep [] = []"
| "join sep [x] = x"
| "join sep (x # y # ys) = x @ sep @ join sep (y # ys)"

text \<open>\<open>s.split(c)\<close> for a one-character separator: never empty.\<close>

fun split_on :: "char \<Rightarrow> string \<Rightarrow> string list" where
  "split_on c [] = [[]]"
| "split_on c (x # xs) =
     (if x = c then [] # split_on c xs
      else (case split_on c xs of [] \<Rightarrow> [[x]] | w # ws \<Rightarrow> (x # w) # ws))"

text \<open>\<open>str(n)\<close> for an integer: decimal digits, a minus sign when negative.\<close>

definition digit_char :: "nat \<Rightarrow> char" where
  "digit_char d = ''0123456789'' ! (d mod 10)"

function str_nat :: "nat \<Rightarrow> string" where
  "str_nat n = (if n < 10 then [digit_char n] else str_nat (n div 10) @ [digit_char (n mod 10)])"
  by pat_completeness auto
termination
  by (relation "measure (\<lambda>n. n)") auto

definition str_int :: "int \<Rightarrow> string" where
  "str_int i = (if i < 0 then CHR ''-'' # str_nat (nat (- i)) else str_nat (nat i))"

section \<open>Document model (core types/document_class.py)\<close>

text \<open>
  Modelled from the spec: the class \<open>ObjectType\<close> is used by the source but declared
  nowhere in it. The spec's \<open>ExtractedObject\<close> has the fields \<open>index\<close>, \<open>page\<close>,
  \<open>content\<close> and optional \<open>coordinates\<close>, in the positional order of the constructor
  calls in \<open>add_object\<close>; equality is field-wise (a dataclass).
\<close>

record ObjectType =
  index :: int
  page :: "int option"
  content :: string
  coordinates :: "int list option"

record DocumentClass =
  file_type :: "string option"
  objects :: "ObjectType list"
  obj_index :: int
  pages :: int

definition init_document :: DocumentClass where
  "init_document = \<lparr>file_type = None, objects = [], obj_index = 0, pages = 0\<rparr>"

definition add_page :: "DocumentClass \<Rightarrow> DocumentClass" where
  "add_page d = d\<lparr>pages := pages d + 1\<rparr>"

definition add_object ::
  "DocumentClass \<Rightarrow> int option \<Rightarrow> string \<Rightarrow> int list option \<Rightarrow> DocumentClass" where
  "add_object d pg txt coords =
     (let new_object =
            (case coords of
               None \<Rightarrow> \<lparr>index = obj_index d, page = pg, content = txt, coordinates = None\<rparr>
             | Some c \<Rightarrow> \<lparr>index = obj_index d, page = pg, content = txt, coordinates = Some c\<rparr>)
      in d\<lparr>objects := objects d @ [new_object], obj_index := obj_index d + 1\<rparr>)"

definition get_object :: "DocumentClass \<Rightarrow> int \<Rightarrow> ObjectType option" where
  "get_object d idx = find (\<lambda>obj. index obj = idx) (objects d)"

text \<open>
  \<open>delete_object\<close> removes from the list it is iterating over. The list iterator is a
  position \<open>i\<close> into the current list; \<open>list.remove(obj)\<close> deletes the first element
  equal to \<open>obj\<close>; the iterator then moves to position \<open>i + 1\<close> of the shortened list.
\<close>

function delete_loop :: "int \<Rightarrow> nat \<Rightarrow> ObjectType list \<Rightarrow> ObjectType list" where
  "delete_loop idx i xs =
     (if i < length xs
      then (if index (xs ! i) = idx
            then delete_loop idx (Suc i) (remove1 (xs ! i) xs)
            else delete_loop idx (Suc i) xs)
      else xs)"
  by pat_completeness auto
termination
  by (relation "measure (\<lambda>(idx, i, xs). length xs - i)") (auto simp: length_remove1)

declare delete_loop.simps [simp del]

definition delete_object :: "DocumentClass \<Rightarrow> int \<Rightarrow> int \<times> DocumentClass" where
  "delete_object d idx =
     (let n_before = int (length (objects d));
          d' = d\<lparr>objects := delete_loop idx 0 (objects d)\<rparr>
      in (n_before - int (length (objects d')), d'))"

definition has_pages :: "DocumentClass \<Rightarrow> bool" where
  "has_pages d = (pages d > 0)"

text \<open>\<open>delete_page_objects\<close> returns 0 for a document without pages and \<open>None\<close> otherwise.\<close>

definition delete_page_objects :: "DocumentClass \<Rightarrow> int \<Rightarrow> int option \<times> DocumentClass" where
  "delete_page_objects d doc_page =
     (if \<not> has_pages d then (Some 0, d)
      else (None, d\<lparr>objects := filter (\<lambda>obj. page obj \<noteq> Some doc_page) (objects d)\<rparr>))"

subsection \<open>Format detection\<close>

text \<open>
  \<open>Path(file_path).suffix\<close> (pathlib, POSIX flavour): the path is split at \<open>/\<close>, empty
  and \<open>.\<close> components are dropped, the name is the last component; the suffix starts at
  the last dot of the name, unless that dot is the first or the last character.
\<close>

definition path_name :: "string \<Rightarrow> string" where
  "path_name p =
     (case filter (\<lambda>c. c \<noteq> [] \<and> c \<noteq> ''.'') (split_on CHR ''/'' p) of
        [] \<Rightarrow> []
      | c # cs \<Rightarrow> last (c # cs))"

text \<open>\<open>s.rfind(c)\<close>: the last position of \<open>c\<close>, or \<open>-1\<close>.\<close>

definition rfind_char :: "char \<Rightarrow> string \<Rightarrow> int" where
  "rfind_char c s =
     (if c \<in> set s then int (length s) - 1 - int (length (takeWhile (\<lambda>x. x \<noteq> c) (rev s)))
      else - 1)"

definition path_suffix :: "string \<Rightarrow> string" where
  "path_suffix p =
     (let name = path_name p; i = rfind_char CHR ''.'' name
      in if 0 < i \<and> i < int (length name) - 1 then drop (nat i) name else [])"

text \<open>
  The page-counting collaborators. Each \<open>try\<close> block of \<open>detect_type\<close> imports a package
  and calls it on the file: the import fails (\<open>ImportError\<close>), or the call raises another
  exception (with its message), or it returns.
\<close>

datatype 'a outcome = ImportError | Raises string | Returns 'a

record tooling =
  pdfinfo_from_path :: "string \<Rightarrow> (string \<times> int) list outcome"
  presentation_slides :: "string \<Rightarrow> nat outcome"
  image_open :: "string \<Rightarrow> int option outcome"
  convert_page_count :: "string \<Rightarrow> int outcome"

datatype error = RuntimeError string | Propagated string

text \<open>
  \<open>detect_type\<close> sets \<open>file_type\<close> before it counts pages, so the document is returned
  also when the call raises.
\<close>

definition detect_type ::
  "tooling \<Rightarrow> DocumentClass \<Rightarrow> string \<Rightarrow> error option \<times> DocumentClass" where
  "detect_type env d file_path =
     (let ext = lower (path_suffix file_path) in
      if ext = ''.pdf'' then
        (let d1 = d\<lparr>file_type := Some ''PDF''\<rparr> in
         case pdfinfo_from_path env file_path of
           Returns info \<Rightarrow>
             (None, d1\<lparr>pages := (case map_of info ''Pages'' of Some n \<Rightarrow> n | None \<Rightarrow> 0)\<rparr>)
         | ImportError \<Rightarrow>
             (Some (RuntimeError ''Install pdf2image and Poppler to handle PDFs.''), d1)
         | Raises e \<Rightarrow> (Some (Propagated e), d1))
      else if ext = ''.pptx'' then
        (let d1 = d\<lparr>file_type := Some ''PPTX''\<rparr> in
         case presentation_slides env file_path of
           Returns n \<Rightarrow> (None, d1\<lparr>pages := int n\<rparr>)
         | ImportError \<Rightarrow> (Some (RuntimeError ''Install python-pptx to handle PPTX.''), d1)
         | Raises e \<Rightarrow> (Some (Propagated e), d1))
      else if ext \<in> set [''.tif'', ''.tiff''] then
        (let d1 = d\<lparr>file_type := Some ''TIFF''\<rparr> in
         case image_open env file_path of
           Returns n_frames \<Rightarrow>
             (None, d1\<lparr>pages := (case n_frames of Some n \<Rightarrow> n | None \<Rightarrow> 1)\<rparr>)
         | ImportError \<Rightarrow> (Some (RuntimeError ''Install Pillow to handle TIFF.''), d1)
         | Raises e \<Rightarrow> (Some (Propagated e), d1))
      else if ext \<in> set [''.docx'', ''.odt'', ''.rtf''] then
        (let d1 = d\<lparr>file_type := Some (upper (lstrip_dot ext))\<rparr> in
         case convert_page_count env file_path of
           Returns n \<Rightarrow> (None, d1\<lparr>pages := n\<rparr>)
         | ImportError \<Rightarrow> (None, d1\<lparr>pages := 0\<rparr>)
         | Raises e \<Rightarrow> (None, d1\<lparr>pages := 0\<rparr>))
      else
        (None, d\<lparr>file_type :=
                    Some (let t = upper (lstrip_dot ext) in if t = [] then ''UNKNOWN'' else t),
                  pages := 0\<rparr>))"

text \<open>Sequences of calls on one document.\<close>

datatype doc_op =
    AddPage
  | AddObject "int option" string "int list option"
  | DeleteObject int
  | DeletePageObjects int

fun apply_op :: "DocumentClass \<Rightarrow> doc_op \<Rightarrow> DocumentClass" where
  "apply_op d AddPage = add_page d"
| "apply_op d (AddObject pg txt coords) = add_object d pg txt coords"
| "apply_op d (DeleteObject idx) = snd (delete_object d idx)"
| "apply_op d (DeletePageObjects pg) = snd (delete_page_objects d pg)"

definition run_ops :: "DocumentClass \<Rightarrow> doc_op list \<Rightarrow> DocumentClass" where
  "run_ops d ops = foldl apply_op d ops"

text \<open>The indices that the \<open>add_object\<close> calls of a sequence give to their new objects.\<close>

fun assigned :: "DocumentClass \<Rightarrow> doc_op list \<Rightarrow> int list" where
  "assigned d [] = []"
| "assigned d (AddObject pg txt coords # ops) =
     index (last (objects (add_object d pg txt coords)))
       # assigned (add_object d pg txt coords) ops"
| "assigned d (x # ops) = assigned (apply_op d x) ops"

definition doc_inv :: "DocumentClass \<Rightarrow> bool" where
  "doc_inv d = (sorted_wrt (\<lambda>a b. index a < index b) (objects d) \<and>
                (\<forall>obj \<in> set (objects d). index obj < obj_index d))"

section \<open>Recognition results (smartocr.py)\<close>

text \<open>
  What the recognition backend hands back is duck-typed: a string, or an object whose
  attributes are probed by name. \<open>PObj cls attrs\<close> is an object of class \<open>cls\<close> with the
  attributes \<open>attrs\<close>. The names the worker asks for are \<open>content\<close>, \<open>text\<close>,
  \<open>choices\<close> and \<open>message\<close>: strings, lists and \<open>None\<close> have none of them.
\<close>

datatype pyval = PStr string | PNone | PList "pyval list" | PObj string "(string \<times> pyval) list"

fun type_name :: "pyval \<Rightarrow> string" where
  "type_name (PStr s) = ''str''"
| "type_name PNone = ''NoneType''"
| "type_name (PList xs) = ''list''"
| "type_name (PObj cls attrs) = cls"

fun py_getattr :: "pyval \<Rightarrow> string \<Rightarrow> pyval option" where
  "py_getattr (PObj cls attrs) name = map_of attrs name"
| "py_getattr v name = None"

definition py_hasattr :: "pyval \<Rightarrow> string \<Rightarrow> bool" where
  "py_hasattr v name = (py_getattr v name \<noteq> None)"

text \<open>\<open>getattr(v, name, None)\<close>, and \<open>v.name\<close> where \<open>hasattr(v, name)\<close> has been checked.\<close>

definition getattr_default :: "pyval \<Rightarrow> string \<Rightarrow> pyval" where
  "getattr_default v name = (case py_getattr v name of Some a \<Rightarrow> a | None \<Rightarrow> PNone)"

fun is_str :: "pyval \<Rightarrow> bool" where
  "is_str (PStr s) = True"
| "is_str v = False"

fun truthy :: "pyval \<Rightarrow> bool" where
  "truthy (PStr s) = (s \<noteq> [])"
| "truthy PNone = False"
| "truthy (PList xs) = (xs \<noteq> [])"
| "truthy (PObj cls attrs) = True"

text \<open>\<open>v[0]\<close>; the left summand is the message of the exception raised.\<close>

fun getitem0 :: "pyval \<Rightarrow> string + pyval" where
  "getitem0 (PList []) = Inl ''list index out of range''"
| "getitem0 (PList (x # xs)) = Inr x"
| "getitem0 (PStr []) = Inl ''string index out of range''"
| "getitem0 (PStr (c # cs)) = Inr (PStr [c])"
| "getitem0 v = Inl ([CHR 0x27] @ type_name v @ [CHR 0x27] @ '' object is not subscriptable'')"

text \<open>
  \<open>str(v)\<close>: the identity on strings; what it prints for another value depends on the
  value's class, and is a parameter.
\<close>

fun py_str :: "(pyval \<Rightarrow> string) \<Rightarrow> pyval \<Rightarrow> string" where
  "py_str str_other (PStr s) = s"
| "py_str str_other v = str_other v"

definition NL :: string where
  "NL = [CHR 0x0A]"

text \<open>Lines 578 to 584: the \<open>choices\<close> shape, inside its own \<open>try\<close>.\<close>

definition extract_choices :: "(pyval \<Rightarrow> string) \<Rightarrow> pyval \<Rightarrow> pyval \<times> bool" where
  "extract_choices str_other choices =
     (case getitem0 choices of
        Inl choice_e \<Rightarrow> (PStr (''Err parse choices: '' @ choice_e), True)
      | Inr first_choice \<Rightarrow>
          (let message = getattr_default first_choice ''message'';
               content = getattr_default message ''content''
           in if truthy content then (content, False)
              else if py_hasattr first_choice ''text''
                then (getattr_default first_choice ''text'', False)
              else (PStr (py_str str_other first_choice), False)))"

text \<open>
  Lines 574 to 585: the page text and whether \<open>batch_had_processing_errors\<close> is set.
\<close>

definition extract_text :: "(pyval \<Rightarrow> string) \<Rightarrow> pyval \<Rightarrow> pyval \<times> bool" where
  "extract_text str_other prediction_result =
     (if is_str prediction_result \<and> startswith (py_str str_other prediction_result) ''Error:''
        then (prediction_result, True)
      else if is_str prediction_result then (prediction_result, False)
      else if py_hasattr prediction_result ''content''
              \<and> is_str (getattr_default prediction_result ''content'')
        then (getattr_default prediction_result ''content'', False)
      else if py_hasattr prediction_result ''text''
              \<and> is_str (getattr_default prediction_result ''text'')
        then (getattr_default prediction_result ''text'', False)
      else if py_hasattr prediction_result ''choices''
              \<and> truthy (getattr_default prediction_result ''choices'')
        then extract_choices str_other (getattr_default prediction_result ''choices'')
      else (PStr (py_str str_other prediction_result), False))"

text \<open>Lines 588 to 592 on a string.\<close>

definition cleanup :: "string \<Rightarrow> string" where
  "cleanup page_text =
     (if \<not> startswith page_text ''Error:'' then
        (let t1 = strip page_text;
             t2 = (if startswith t1 ''```text'' then strip (drop (length ''```text'') t1) else t1);
             t3 = (if startswith t2 ''```'' then strip (drop 3 t2) else t2);
             t4 = (if endswith t3 ''```'' then strip (take (length t3 - 3) t3) else t3)
         in t4)
      else page_text)"

text \<open>
  The page text is whatever the extraction found; \<open>page_text.startswith\<close> raises on a
  value that is not a string (the left summand is the message of the exception).
\<close>

fun cleanup_page_text :: "pyval \<Rightarrow> string + string" where
  "cleanup_page_text (PStr s) = Inr (cleanup s)"
| "cleanup_page_text (PObj cls attrs) =
     (case map_of attrs ''startswith'' of
        None \<Rightarrow> Inl ([CHR 0x27] @ cls @ [CHR 0x27] @ '' object has no attribute ''
                      @ [CHR 0x27] @ ''startswith'' @ [CHR 0x27])
      | Some f \<Rightarrow> Inl ([CHR 0x27] @ type_name f @ [CHR 0x27] @ '' object is not callable''))"
| "cleanup_page_text v =
     Inl ([CHR 0x27] @ type_name v @ [CHR 0x27] @ '' object has no attribute ''
          @ [CHR 0x27] @ ''startswith'' @ [CHR 0x27])"

text \<open>Line 600: the labeled block of a page.\<close>

definition page_block :: "int \<Rightarrow> string \<Rightarrow> string" where
  "page_block n page_text = ''--- Page '' @ str_int n @ '' ---'' @ NL @ page_text @ NL"

section \<open>The conversion worker (smartocr.py)\<close>

text \<open>
  The worker talks to three collaborators: the cancellation flag, the page renderer and
  the recognition backend. \<open>is_set env k\<close> is what \<open>cancel_event.is_set()\<close> answers the
  \<open>k\<close>-th time the worker asks (counting from 0). \<open>convert_from_path\<close> returns the
  images of a page range or raises; \<open>respond\<close> is the staging of an image and the model
  call inside \<open>ocr_page\<close>, which returns a value or raises. The left summand is the
  message of the exception.
\<close>

record 'img env =
  is_set :: "nat \<Rightarrow> bool"
  convert_from_path :: "string \<Rightarrow> int \<Rightarrow> int \<Rightarrow> string + 'img list"
  respond :: "'img \<Rightarrow> string + pyval"
  str_other :: "pyval \<Rightarrow> string"

definition ocr_page :: "'img env \<Rightarrow> 'img \<Rightarrow> pyval" where
  "ocr_page env pil_image =
     (case respond env pil_image of
        Inr prediction \<Rightarrow> prediction
      | Inl e \<Rightarrow> PStr (''Error: '' @ e))"

text \<open>
  What the worker does to the outside, in order: the reads of the flag with their answers,
  the calls of the renderer and of \<open>ocr_page\<close> (with the number of the page being
  processed), and the updates it schedules on the main thread. \<open>AppendBatch\<close> is the
  scheduled append of a batch's text, whose prefix is chosen when it runs.
\<close>

datatype event =
    IsSet bool
  | UpdateStatus string
  | ShowMessagebox string string string
  | ConvertFromPath int int
  | OcrPage int
  | AppendText string string
  | AppendBatch string

record wstate =
  processed_page_count_in_run :: int
  any_batch_processed_successfully :: bool
  was_cancelled :: bool
  final_status :: string
  reads :: nat
  trace :: "event list"

definition init_wstate :: wstate where
  "init_wstate =
     \<lparr>processed_page_count_in_run = 0, any_batch_processed_successfully = False,
      was_cancelled = False, final_status = ''OCR process initiated.'', reads = 0, trace = []\<rparr>"

definition emit :: "event \<Rightarrow> wstate \<Rightarrow> wstate" where
  "emit e st = st\<lparr>trace := trace st @ [e]\<rparr>"

definition check_cancel :: "'img env \<Rightarrow> wstate \<Rightarrow> bool \<times> wstate" where
  "check_cancel env st =
     (is_set env (reads st),
      emit (IsSet (is_set env (reads st))) (st\<lparr>reads := Suc (reads st)\<rparr>))"

definition cancel :: "string \<Rightarrow> wstate \<Rightarrow> wstate" where
  "cancel msg st = st\<lparr>was_cancelled := True, final_status := msg\<rparr>"

text \<open>
  One round of the page loop (lines 561 to 600), on image \<open>i\<close> of the batch. The first
  component says whether the loop was left by \<open>break\<close>.
\<close>

definition process_page ::
  "'img env \<Rightarrow> int \<Rightarrow> int \<Rightarrow> nat \<Rightarrow> 'img \<Rightarrow> wstate \<Rightarrow> string list \<Rightarrow> bool
     \<Rightarrow> bool \<times> wstate \<times> string list \<times> bool" where
  "process_page env batch_start_page total_run i pil_image st results had =
     (let (c1, st1) = check_cancel env st in
      if c1 then (True, cancel ''OCR cancelled.'' st1, results, had)
      else
        let n = batch_start_page + int i;
            st2 = st1\<lparr>processed_page_count_in_run := processed_page_count_in_run st1 + 1\<rparr>;
            st3 = emit (UpdateStatus (''OCR processing page '' @ str_int n @ '' (''
                    @ str_int (processed_page_count_in_run st2) @ ''/'' @ str_int total_run
                    @ '')...'')) st2;
            (c2, st4) = check_cancel env st3
        in
        if c2 then (True, cancel ''OCR cancelled.'' st4, results, had)
        else
          let prediction_result = ocr_page env pil_image;
              (c3, st5) = check_cancel env (emit (OcrPage n) st4)
          in
          if c3 then (True, cancel ''OCR cancelled.'' st5, results, had)
          else
            let (page_text, err) = extract_text (str_other env) prediction_result;
                had1 = (had \<or> err)
            in
            case cleanup_page_text page_text of
              Inr cleaned \<Rightarrow> (False, st5, results @ [page_block n cleaned], had1)
            | Inl ex \<Rightarrow>
                (let (c4, st6) = check_cancel env st5 in
                 if c4 then (True, cancel ''OCR cancelled.'' st6, results, had1)
                 else (False, st6,
                       results @ [page_block n (''Error processing page '' @ str_int n
                                                 @ '': '' @ ex)],
                       True)))"

fun process_pages ::
  "'img env \<Rightarrow> int \<Rightarrow> int \<Rightarrow> nat \<Rightarrow> 'img list \<Rightarrow> wstate \<Rightarrow> string list \<Rightarrow> bool
     \<Rightarrow> wstate \<times> string list \<times> bool" where
  "process_pages env batch_start_page total_run i [] st results had = (st, results, had)"
| "process_pages env batch_start_page total_run i (pil_image # images) st results had =
     (case process_page env batch_start_page total_run i pil_image st results had of
        (True, st', results', had') \<Rightarrow> (st', results', had')
      | (False, st', results', had') \<Rightarrow>
          process_pages env batch_start_page total_run (Suc i) images st' results' had')"

text \<open>Lines 542 to 545: an empty list of images is turned into an exception.\<close>

definition load_batch :: "'img env \<Rightarrow> string \<Rightarrow> int \<Rightarrow> int \<Rightarrow> string + 'img list" where
  "load_batch env pdf_filepath first_page last_page =
     (case convert_from_path env pdf_filepath first_page last_page of
        Inl e \<Rightarrow> Inl e
      | Inr [] \<Rightarrow> Inl ''pdf2image returned no images.''
      | Inr (im # ims) \<Rightarrow> Inr (im # ims))"

datatype flow = Break | Next

text \<open>One round of the batch loop (lines 534 to 614).\<close>

definition process_batch ::
  "'img env \<Rightarrow> string \<Rightarrow> int \<Rightarrow> int \<Rightarrow> int \<Rightarrow> int \<Rightarrow> wstate \<Rightarrow> flow \<times> wstate" where
  "process_batch env pdf_filepath end_page batch_size total_run batch_start_page st =
     (let (c, st1) = check_cancel env st in
      if c then (Break, cancel ''OCR process cancelled by user.'' st1)
      else
        let batch_end_page = min (batch_start_page + batch_size - 1) end_page;
            st2 = emit (UpdateStatus (''Loading batch: Pages '' @ str_int batch_start_page
                    @ '' to '' @ str_int batch_end_page @ ''...'')) st1;
            st3 = emit (ConvertFromPath batch_start_page batch_end_page) st2
        in
        case load_batch env pdf_filepath batch_start_page batch_end_page of
          Inl e \<Rightarrow>
            (let (c', st4) = check_cancel env st3 in
             if c' then (Break, cancel ''OCR cancelled.'' st4)
             else
               let error_message = ''Could not load batch '' @ str_int batch_start_page
                     @ ''-'' @ str_int batch_end_page @ '': '' @ e;
                   st5 = emit (ShowMessagebox ''warning'' ''Batch Loading Error''
                           (error_message @ NL @ ''Skipping batch.'')) st4;
                   st6 = st5\<lparr>processed_page_count_in_run :=
                           processed_page_count_in_run st5
                             + (batch_end_page - batch_start_page + 1)\<rparr>;
                   error_text = NL @ ''--- ERROR LOADING BATCH: Pages ''
                     @ str_int batch_start_page @ ''-'' @ str_int batch_end_page @ '' ---''
                     @ NL @ ''Error: '' @ e @ NL
               in (Next, if \<not> was_cancelled st6 then emit (AppendText [] error_text) st6
                         else st6))
        | Inr current_batch_images \<Rightarrow>
            (let (st4, batch_results_list, batch_had_processing_errors) =
                   process_pages env batch_start_page total_run 0 current_batch_images st3 [] False;
                 st5 = (if \<not> was_cancelled st4 \<and> batch_results_list \<noteq> [] then
                          (let st' = emit (AppendBatch (join NL batch_results_list)) st4 in
                           if \<not> batch_had_processing_errors
                           then st'\<lparr>any_batch_processed_successfully := True\<rparr> else st')
                        else st4)
             in if was_cancelled st5 then (Break, st5) else (Next, st5)))"

fun batch_loop ::
  "'img env \<Rightarrow> string \<Rightarrow> int \<Rightarrow> int \<Rightarrow> int \<Rightarrow> int list \<Rightarrow> wstate \<Rightarrow> wstate" where
  "batch_loop env pdf_filepath end_page batch_size total_run [] st = st"
| "batch_loop env pdf_filepath end_page batch_size total_run (batch_start_page # rest) st =
     (case process_batch env pdf_filepath end_page batch_size total_run batch_start_page st of
        (Break, st') \<Rightarrow> st'
      | (Next, st') \<Rightarrow> batch_loop env pdf_filepath end_page batch_size total_run rest st')"

text \<open>\<open>range(start, stop, step)\<close>; a zero step raises \<open>ValueError\<close>.\<close>

function range_up :: "int \<Rightarrow> int \<Rightarrow> int \<Rightarrow> int list" where
  "range_up i stop step = (if 0 < step \<and> i < stop then i # range_up (i + step) stop step else [])"
  by pat_completeness auto
termination
  by (relation "measure (\<lambda>(i, stop, step). nat (stop - i))") auto

function range_down :: "int \<Rightarrow> int \<Rightarrow> int \<Rightarrow> int list" where
  "range_down i stop step =
     (if step < 0 \<and> stop < i then i # range_down (i + step) stop step else [])"
  by pat_completeness auto
termination
  by (relation "measure (\<lambda>(i, stop, step). nat (i - stop))") auto

declare range_up.simps [simp del] range_down.simps [simp del]

definition py_range :: "int \<Rightarrow> int \<Rightarrow> int \<Rightarrow> string + int list" where
  "py_range start stop step =
     (if step = 0 then Inl ''range() arg 3 must not be zero''
      else if 0 < step then Inr (range_up start stop step)
      else Inr (range_down start stop step))"

text \<open>
  The worker (lines 519 to 630). The only statement outside the guarded sections that can
  raise is \<open>range\<close>; the \<open>finally\<close> block reports the final status (the re-enabling of
  the controls is left out).
\<close>

definition ocr_worker_thread ::
  "'img env \<Rightarrow> string \<Rightarrow> int \<Rightarrow> int \<Rightarrow> int \<Rightarrow> wstate" where
  "ocr_worker_thread env pdf_filepath start_page end_page batch_size =
     (let total_pages_to_process_in_run = end_page - start_page + 1;
          st_end =
            (case py_range start_page (end_page + 1) batch_size of
               Inl e \<Rightarrow>
                 emit (ShowMessagebox ''error'' ''Worker Thread Error''
                         (''An unexpected error occurred: '' @ e))
                   (init_wstate\<lparr>final_status := ''OCR process failed unexpectedly: '' @ e\<rparr>)
             | Inr batch_starts \<Rightarrow>
                 (let st1 = batch_loop env pdf_filepath end_page batch_size
                              total_pages_to_process_in_run batch_starts init_wstate
                  in if \<not> was_cancelled st1 then
                       st1\<lparr>final_status :=
                             (if \<not> any_batch_processed_successfully st1
                              then ''OCR finished, but encountered errors or no text was processed.''
                              else ''OCR process completed.'')\<rparr>
                     else st1))
      in emit (UpdateStatus (final_status st_end)) st_end)"

text \<open>
  The results widget: the scheduled appends run on the main thread in the order in which
  they were scheduled. A batch is separated from earlier content by a newline.
\<close>

fun apply_event :: "string \<Rightarrow> event \<Rightarrow> string" where
  "apply_event results_text (AppendText prefix t) = results_text @ prefix @ t"
| "apply_event results_text (AppendBatch bt) =
     results_text @ (if strip results_text \<noteq> [] then NL else []) @ bt"
| "apply_event results_text e = results_text"

definition results_text_after :: "string \<Rightarrow> event list \<Rightarrow> string" where
  "results_text_after results_text evs = foldl apply_event results_text evs"

text \<open>The batches of a run: first and last page of each.\<close>

definition batch_bounds :: "int \<Rightarrow> int \<Rightarrow> int \<Rightarrow> (int \<times> int) list" where
  "batch_bounds start_page end_page batch_size =
     map (\<lambda>s. (s, min (s + batch_size - 1) end_page))
       (range_up start_page (end_page + 1) batch_size)"

subsection \<open>Starting a run\<close>

record app =
  ocr_thread_alive :: bool
  pdf_file :: "string option"
  total_pages :: int
  from_entry :: string
  to_entry :: string

datatype run_outcome =
    Rejected string string string
  | Started int int int

text \<open>
  \<open>run_ocr\<close> (lines 473 to 504): a message box and no run, or a worker started on
  \<open>(start_page_num, end_page_num, batch_size)\<close>. \<open>batch_size\<close> is \<open>None\<close> when the
  argument is not an integer. \<open>py_int\<close> is \<open>int()\<close> on a string, \<open>None\<close> when it raises
  \<open>ValueError\<close>.
\<close>

definition run_ocr :: "(string \<Rightarrow> int option) \<Rightarrow> app \<Rightarrow> int option \<Rightarrow> run_outcome" where
  "run_ocr py_int a batch_size =
     (if ocr_thread_alive a
        then Rejected ''warning'' ''Busy'' ''An OCR conversion is already in progress.''
      else if pdf_file a = None \<or> pdf_file a = Some []
        then Rejected ''error'' ''Error'' ''No PDF file loaded.''
      else if total_pages a \<le> 0
        then Rejected ''error'' ''Error''
               ''Cannot determine total pages or PDF has 0 pages. Please reload.''
      else
        let bs = (case batch_size of None \<Rightarrow> 10 | Some b \<Rightarrow> if b < 1 then 10 else b);
            from_str = strip (from_entry a);
            to_str = strip (to_entry a)
        in
        if from_str \<noteq> [] \<or> to_str \<noteq> [] then
          (if from_str = [] \<or> to_str = []
             then Rejected ''error'' ''Input Error''
                    (''Both '' @ [CHR 0x27] @ ''from'' @ [CHR 0x27] @ '' and '' @ [CHR 0x27]
                     @ ''to'' @ [CHR 0x27] @ '' must be filled or both empty.'')
           else
             case py_int from_str of
               None \<Rightarrow> Rejected ''error'' ''Input Error'' ''Page numbers must be integers.''
             | Some start_page_num \<Rightarrow>
                 (case py_int to_str of
                    None \<Rightarrow> Rejected ''error'' ''Input Error'' ''Page numbers must be integers.''
                  | Some end_page_num \<Rightarrow>
                      if \<not> (1 \<le> start_page_num \<and> start_page_num \<le> total_pages a)
                        then Rejected ''error'' ''Input Error''
                               ([CHR 0x27] @ ''From'' @ [CHR 0x27] @ '' page must be 1-''
                                @ str_int (total_pages a) @ ''.'')
                      else if \<not> (1 \<le> end_page_num \<and> end_page_num \<le> total_pages a)
                        then Rejected ''error'' ''Input Error''
                               ([CHR 0x27] @ ''To'' @ [CHR 0x27] @ '' page must be 1-''
                                @ str_int (total_pages a) @ ''.'')
                      else if start_page_num > end_page_num
                        then Rejected ''error'' ''Input Error''
                               ([CHR 0x27] @ ''From'' @ [CHR 0x27] @ '' page > '' @ [CHR 0x27]
                                @ ''to'' @ [CHR 0x27] @ '' page.'')
                      else Started start_page_num end_page_num bs))
        else Started 1 (total_pages a) bs)"

section \<open>Reading a run\<close>

text \<open>
  Projections of the trace, the text that the page loop gives a page when no cancellation
  is observed, and what a batch leaves in the trace when it is not interrupted. They are
  tied to the worker by the lemmas on \<open>process_page\<close>, \<open>process_pages\<close>,
  \<open>process_batch\<close> and \<open>batch_loop\<close> below.
\<close>

text \<open>The appends to the results widget, the pages handed to \<open>ocr_page\<close>, the render calls.\<close>

fun is_append :: "event \<Rightarrow> bool" where
  "is_append (AppendText prefix t) = True"
| "is_append (AppendBatch bt) = True"
| "is_append e = False"

definition appends :: "event list \<Rightarrow> event list" where
  "appends evs = filter is_append evs"

definition ocr_pages_of :: "event list \<Rightarrow> int list" where
  "ocr_pages_of evs = concat (map (\<lambda>e. case e of OcrPage n \<Rightarrow> [n] | _ \<Rightarrow> []) evs)"

definition renders_of :: "event list \<Rightarrow> (int \<times> int) list" where
  "renders_of evs = concat (map (\<lambda>e. case e of ConvertFromPath s e \<Rightarrow> [(s, e)] | _ \<Rightarrow> []) evs)"

text \<open>
  Lines 570 to 598 without the checkpoints: the text that goes into the block of page
  \<open>n\<close>, and whether the page sets \<open>batch_had_processing_errors\<close>. An exception of the
  cleanup is turned into the text of line 597.
\<close>

definition page_outcome :: "'img env \<Rightarrow> int \<Rightarrow> 'img \<Rightarrow> string \<times> bool" where
  "page_outcome env n pil_image =
     (case cleanup_page_text (fst (extract_text (str_other env) (ocr_page env pil_image))) of
        Inr cleaned \<Rightarrow> (cleaned, snd (extract_text (str_other env) (ocr_page env pil_image)))
      | Inl ex \<Rightarrow> (''Error processing page '' @ str_int n @ '': '' @ ex, True))"

text \<open>
  The invariant of the loops: while the run is not cancelled no read of the flag has
  answered "set"; once it is cancelled the last thing that happened is the one read that
  did, and the status is a cancellation message.
\<close>

definition cancel_inv :: "wstate \<Rightarrow> bool" where
  "cancel_inv st =
     (if was_cancelled st
      then trace st \<noteq> [] \<and> last (trace st) = IsSet True
           \<and> IsSet True \<notin> set (butlast (trace st))
           \<and> final_status st \<in> set [''OCR process cancelled by user.'', ''OCR cancelled.'']
      else IsSet True \<notin> set (trace st))"

text \<open>
  The blocks of the images of a batch, numbered from position \<open>i\<close>, and whether one of
  them is flagged as an error.
\<close>

definition batch_blocks :: "'img env \<Rightarrow> int \<Rightarrow> nat \<Rightarrow> 'img list \<Rightarrow> string list" where
  "batch_blocks env batch_start_page i images =
     map (\<lambda>(k, im). page_block (batch_start_page + int k)
                       (fst (page_outcome env (batch_start_page + int k) im)))
       (enumerate i images)"

definition batch_errors :: "'img env \<Rightarrow> int \<Rightarrow> nat \<Rightarrow> 'img list \<Rightarrow> bool" where
  "batch_errors env batch_start_page i images =
     list_ex (\<lambda>(k, im). snd (page_outcome env (batch_start_page + int k) im))
       (enumerate i images)"

text \<open>Line 553: the placeholder for a batch that could not be rendered.\<close>

definition batch_error_text :: "int \<Rightarrow> int \<Rightarrow> string \<Rightarrow> string" where
  "batch_error_text s e err =
     NL @ ''--- ERROR LOADING BATCH: Pages '' @ str_int s @ ''-'' @ str_int e @ '' ---''
        @ NL @ ''Error: '' @ err @ NL"

text \<open>
  What an uninterrupted round of the batch loop on the pages \<open>s\<close> to \<open>e\<close> appends, whether
  it sets \<open>any_batch_processed_successfully\<close>, and the pages it hands to \<open>ocr_page\<close>.
\<close>

definition batch_commit :: "'img env \<Rightarrow> string \<Rightarrow> int \<Rightarrow> int \<Rightarrow> event" where
  "batch_commit env pdf_filepath s e =
     (case load_batch env pdf_filepath s e of
        Inl err \<Rightarrow> AppendText [] (batch_error_text s e err)
      | Inr images \<Rightarrow> AppendBatch (join NL (batch_blocks env s 0 images)))"

definition batch_clean :: "'img env \<Rightarrow> string \<Rightarrow> int \<Rightarrow> int \<Rightarrow> bool" where
  "batch_clean env pdf_filepath s e =
     (case load_batch env pdf_filepath s e of
        Inl err \<Rightarrow> False
      | Inr images \<Rightarrow> \<not> batch_errors env s 0 images)"

definition batch_pages :: "'img env \<Rightarrow> string \<Rightarrow> int \<Rightarrow> int \<Rightarrow> int list" where
  "batch_pages env pdf_filepath s e =
     (case load_batch env pdf_filepath s e of
        Inl err \<Rightarrow> []
      | Inr images \<Rightarrow> map (\<lambda>k. s + int k) [0..<length images])"

text \<open>The state in which the page loop of a batch starts: lines 534 to 543.\<close>

definition loaded :: "'img env \<Rightarrow> int \<Rightarrow> int \<Rightarrow> wstate \<Rightarrow> wstate" where
  "loaded env s e st =
     emit (ConvertFromPath s e)
       (emit (UpdateStatus (''Loading batch: Pages '' @ str_int s @ '' to '' @ str_int e @ ''...''))
          (snd (check_cancel env st)))"

section \<open>Example inputs\<close>

definition example_ops :: "doc_op list" where
  "example_ops =
     [AddObject (Some 0) ''a'' None, AddObject None ''b'' (Some [0, 0, 1, 1]),
      DeleteObject 0, AddPage, AddObject (Some 1) ''c'' None]"

text \<open>No page-counting package is installed.\<close>

definition no_tooling :: tooling where
  "no_tooling =
     \<lparr>pdfinfo_from_path = (\<lambda>p. ImportError), presentation_slides = (\<lambda>p. ImportError),
      image_open = (\<lambda>p. ImportError), convert_page_count = (\<lambda>p. ImportError)\<rparr>"

text \<open>
  A renderer that returns one image per page (the image is the page number), a backend
  that fails on page 7 only, and a cancellation flag given by its answers.
\<close>

definition example_env :: "(nat \<Rightarrow> bool) \<Rightarrow> int env" where
  "example_env flag =
     \<lparr>is_set = flag,
      convert_from_path = (\<lambda>p s e. Inr [s..e]),
      respond = (\<lambda>im. if im = 7 then Inl ''backend down''
                       else Inr (PStr (''text of page '' @ str_int im))),
      str_other = (\<lambda>v. ''<object>'')\<rparr>"

text \<open>
  A response that is not a string and has no \<open>content\<close> and no \<open>text\<close>, whose \<open>choices\<close> is
  an object that cannot be indexed.
\<close>

definition unindexable_choices :: pyval where
  "unindexable_choices = PObj ''Response'' [(''choices'', PObj ''Choices'' [])]"

section \<open>Properties of the document model\<close>

lemma sorted_wrt_remove1: "sorted_wrt P xs \<Longrightarrow> sorted_wrt P (remove1 x xs)"
  by (induction xs) (auto dest: notin_set_remove1)

lemma delete_loop_sorted:
  "sorted_wrt P xs \<Longrightarrow> sorted_wrt P (delete_loop idx i xs)"
proof (induction idx i xs rule: delete_loop.induct)
  case (1 idx i xs)
  then show ?case
    by (subst delete_loop.simps) (auto simp: sorted_wrt_remove1)
qed

lemma delete_loop_subset: "set (delete_loop idx i xs) \<subseteq> set xs"
proof (induction idx i xs rule: delete_loop.induct)
  case (1 idx i xs)
  show ?case
  proof (cases "i < length xs")
    case True
    have "set (remove1 (xs ! i) xs) \<subseteq> set xs"
      by (rule set_remove1_subset)
    with True 1 show ?thesis
      by (subst delete_loop.simps) auto
  next
    case False
    then show ?thesis by (subst delete_loop.simps) simp
  qed
qed

lemma add_object_inv: "doc_inv d \<Longrightarrow> doc_inv (add_object d pg t coords)"
  by (cases coords) (auto simp: doc_inv_def add_object_def Let_def sorted_wrt_append)

lemma delete_object_inv: "doc_inv d \<Longrightarrow> doc_inv (snd (delete_object d idx))"
  using delete_loop_subset [of idx 0 "objects d"]
  by (auto simp: doc_inv_def delete_object_def Let_def delete_loop_sorted)

lemma delete_page_objects_inv: "doc_inv d \<Longrightarrow> doc_inv (snd (delete_page_objects d pg))"
  by (auto simp: doc_inv_def delete_page_objects_def sorted_wrt_filter)

lemma apply_op_inv: "doc_inv d \<Longrightarrow> doc_inv (apply_op d x)"
  by (cases x) (simp_all add: add_object_inv delete_object_inv delete_page_objects_inv,
      simp add: doc_inv_def add_page_def)

lemma run_ops_inv: "doc_inv d \<Longrightarrow> doc_inv (run_ops d ops)"
  unfolding run_ops_def by (induction ops arbitrary: d) (simp_all add: apply_op_inv)

lemma init_document_inv: "doc_inv init_document"
  by (simp add: doc_inv_def init_document_def)

lemma obj_index_apply_op: "obj_index d \<le> obj_index (apply_op d x)"
  by (cases x) (simp_all add: add_page_def add_object_def delete_object_def
      delete_page_objects_def Let_def)

lemma obj_index_run_ops: "obj_index d \<le> obj_index (run_ops d ops)"
  unfolding run_ops_def
proof (induction ops arbitrary: d)
  case Nil
  show ?case by simp
next
  case (Cons x ops)
  have "obj_index d \<le> obj_index (apply_op d x)" by (rule obj_index_apply_op)
  also have "\<dots> \<le> obj_index (foldl apply_op (apply_op d x) ops)" by (rule Cons.IH)
  finally show ?case by simp
qed

lemma add_object_last: "index (last (objects (add_object d pg t coords))) = obj_index d"
  by (cases coords) (simp_all add: add_object_def)

lemma assigned_lower: "j \<in> set (assigned d ops) \<Longrightarrow> obj_index d \<le> j"
proof (induction ops arbitrary: d)
  case Nil
  then show ?case by simp
next
  case (Cons x ops)
  have le: "obj_index d \<le> obj_index (apply_op d x)" by (rule obj_index_apply_op)
  show ?case
  proof (cases x)
    case (AddObject pg t coords)
    with Cons le show ?thesis by (fastforce simp: add_object_last)
  next
    case AddPage
    with Cons le show ?thesis by force
  next
    case (DeleteObject idx)
    with Cons le show ?thesis by force
  next
    case (DeletePageObjects pg)
    with Cons le show ?thesis by force
  qed
qed

lemma assigned_sorted: "sorted_wrt (<) (assigned d ops)"
proof (induction ops arbitrary: d)
  case Nil
  show ?case by simp
next
  case (Cons x ops)
  show ?case
  proof (cases x)
    case (AddObject pg t coords)
    have "obj_index d < j" if "j \<in> set (assigned (add_object d pg t coords) ops)" for j
      using assigned_lower [OF that] by (simp add: add_object_def)
    with Cons AddObject show ?thesis by (simp add: add_object_last)
  next
    case AddPage
    with Cons show ?thesis by simp
  next
    case (DeleteObject idx)
    with Cons show ?thesis by simp
  next
    case (DeletePageObjects pg)
    with Cons show ?thesis by simp
  qed
qed

text \<open>
  C5. Whatever calls are made on a fresh document: the indices given out by \<open>add_object\<close>
  are strictly increasing, hence unique; every stored object has an index below the
  counter, and the stored indices are unique; and an index below the counter at the time
  of a \<open>delete_object\<close> call (so every index given out before, the deleted one among them)
  is never given out by a later \<open>add_object\<close>.
\<close>

theorem C5_indices:
  "sorted_wrt (<) (assigned init_document ops) \<and>
   distinct (assigned init_document ops) \<and>
   (\<forall>obj \<in> set (objects (run_ops init_document ops)).
       index obj < obj_index (run_ops init_document ops)) \<and>
   distinct (map index (objects (run_ops init_document ops))) \<and>
   (\<forall>ops1 idx ops2. ops = ops1 @ DeleteObject idx # ops2 \<longrightarrow>
       idx < obj_index (run_ops init_document ops1) \<longrightarrow>
       idx \<notin> set (assigned (run_ops init_document (ops1 @ [DeleteObject idx])) ops2))"
proof -
  have s: "sorted_wrt (<) (assigned init_document ops)" by (rule assigned_sorted)
  have inv: "doc_inv (run_ops init_document ops)"
    by (rule run_ops_inv [OF init_document_inv])
  have d: "distinct (assigned init_document ops)"
    using s strict_sorted_iff by blast
  have di: "distinct (map index (objects (run_ops init_document ops)))"
    using inv strict_sorted_iff [of "map index (objects (run_ops init_document ops))"]
    by (simp add: doc_inv_def sorted_wrt_map)
  have fr: "idx \<notin> set (assigned (run_ops init_document (ops1 @ [DeleteObject idx])) ops2)"
    if "idx < obj_index (run_ops init_document ops1)" for ops1 idx ops2
  proof
    assume "idx \<in> set (assigned (run_ops init_document (ops1 @ [DeleteObject idx])) ops2)"
    then have "obj_index (run_ops init_document (ops1 @ [DeleteObject idx])) \<le> idx"
      by (rule assigned_lower)
    moreover have "obj_index (run_ops init_document (ops1 @ [DeleteObject idx]))
        = obj_index (run_ops init_document ops1)"
      by (simp add: run_ops_def delete_object_def Let_def)
    ultimately show False using that by simp
  qed
  from s d inv di fr show ?thesis by (simp add: doc_inv_def)
qed

theorem C5_indices_witness:
  "assigned init_document example_ops = [0, 1, 2] \<and>
   map index (objects (run_ops init_document example_ops)) = [1, 2] \<and>
   obj_index (run_ops init_document example_ops) = 3 \<and>
   sorted_wrt (<) (assigned init_document example_ops) \<and>
   distinct (map index (objects (run_ops init_document example_ops))) \<and>
   0 \<notin> set (assigned
              (run_ops init_document
                 [AddObject (Some 0) ''a'' None, AddObject None ''b'' (Some [0, 0, 1, 1]),
                  DeleteObject 0])
              [AddPage, AddObject (Some 1) ''c'' None])"
proof -
  have a: "assigned init_document example_ops = [0, 1, 2]" by code_simp
  have b: "map index (objects (run_ops init_document example_ops)) = [1, 2]" by code_simp
  have c: "obj_index (run_ops init_document example_ops) = 3" by code_simp
  have e: "example_ops = [AddObject (Some 0) ''a'' None, AddObject None ''b'' (Some [0, 0, 1, 1])]
             @ DeleteObject 0 # [AddPage, AddObject (Some 1) ''c'' None]"
    by (simp add: example_ops_def)
  have f: "0 < obj_index (run_ops init_document
             [AddObject (Some 0) ''a'' None, AddObject None ''b'' (Some [0, 0, 1, 1])])"
    by code_simp
  from C5_indices [of example_ops] e f
  have "0 \<notin> set (assigned
              (run_ops init_document
                 ([AddObject (Some 0) ''a'' None, AddObject None ''b'' (Some [0, 0, 1, 1])] @
                  [DeleteObject 0]))
              [AddPage, AddObject (Some 1) ''c'' None])"
    by blast
  with C5_indices [of example_ops] a b c show ?thesis by simp
qed

text \<open>
  C7, as the code has it. When the package that counts the pages cannot be imported,
  \<open>detect_type\<close> raises \<open>RuntimeError\<close> with an install message for a PDF, PPTX or TIFF
  file. For a DOCX, ODT or RTF file every failure of the conversion (a missing package
  among them) is swallowed: the call returns normally, with the file type set and the page
  count 0.
\<close>

theorem C7_tooling_unavailable:
  "(lower (path_suffix p) = ''.pdf'' \<and> pdfinfo_from_path env p = ImportError \<longrightarrow>
      fst (detect_type env d p)
        = Some (RuntimeError ''Install pdf2image and Poppler to handle PDFs.'')) \<and>
   (lower (path_suffix p) = ''.pptx'' \<and> presentation_slides env p = ImportError \<longrightarrow>
      fst (detect_type env d p) = Some (RuntimeError ''Install python-pptx to handle PPTX.'')) \<and>
   (lower (path_suffix p) \<in> {''.tif'', ''.tiff''} \<and> image_open env p = ImportError \<longrightarrow>
      fst (detect_type env d p) = Some (RuntimeError ''Install Pillow to handle TIFF.'')) \<and>
   (lower (path_suffix p) \<in> {''.docx'', ''.odt'', ''.rtf''}
      \<and> (\<forall>n. convert_page_count env p \<noteq> Returns n) \<longrightarrow>
      detect_type env d p
        = (None, d\<lparr>file_type := Some (upper (drop 1 (lower (path_suffix p)))), pages := 0\<rparr>))"
  by (auto simp: detect_type_def Let_def lstrip_dot_def split: outcome.splits)

theorem C7_tooling_unavailable_witness:
  "fst (detect_type no_tooling init_document ''scan.pdf'')
     = Some (RuntimeError ''Install pdf2image and Poppler to handle PDFs.'') \<and>
   fst (detect_type no_tooling init_document ''slides/deck.PPTX'')
     = Some (RuntimeError ''Install python-pptx to handle PPTX.'') \<and>
   fst (detect_type no_tooling init_document ''fax.tiff'')
     = Some (RuntimeError ''Install Pillow to handle TIFF.'') \<and>
   detect_type no_tooling init_document ''letter.odt''
     = (None, init_document\<lparr>file_type := Some ''ODT'', pages := 0\<rparr>)"
proof -
  have 1: "lower (path_suffix ''scan.pdf'') = ''.pdf''
           \<and> pdfinfo_from_path no_tooling ''scan.pdf'' = ImportError"
    by code_simp
  have 2: "lower (path_suffix ''slides/deck.PPTX'') = ''.pptx''
           \<and> presentation_slides no_tooling ''slides/deck.PPTX'' = ImportError"
    by code_simp
  have 3: "lower (path_suffix ''fax.tiff'') \<in> {''.tif'', ''.tiff''}
           \<and> image_open no_tooling ''fax.tiff'' = ImportError"
    by code_simp
  have 4: "lower (path_suffix ''letter.odt'') \<in> {''.docx'', ''.odt'', ''.rtf''}
           \<and> (\<forall>n. convert_page_count no_tooling ''letter.odt'' \<noteq> Returns n)"
    by (rule conjI, code_simp, simp add: no_tooling_def)
  have 5: "upper (drop 1 (lower (path_suffix ''letter.odt''))) = ''ODT''"
    by code_simp
  from 1 C7_tooling_unavailable [of "''scan.pdf''" no_tooling init_document]
  have a: "fst (detect_type no_tooling init_document ''scan.pdf'')
             = Some (RuntimeError ''Install pdf2image and Poppler to handle PDFs.'')"
    by blast
  from 2 C7_tooling_unavailable [of "''slides/deck.PPTX''" no_tooling init_document]
  have b: "fst (detect_type no_tooling init_document ''slides/deck.PPTX'')
             = Some (RuntimeError ''Install python-pptx to handle PPTX.'')"
    by blast
  from 3 C7_tooling_unavailable [of "''fax.tiff''" no_tooling init_document]
  have c: "fst (detect_type no_tooling init_document ''fax.tiff'')
             = Some (RuntimeError ''Install Pillow to handle TIFF.'')"
    by blast
  from 4 C7_tooling_unavailable [of "''letter.odt''" no_tooling init_document]
  have "detect_type no_tooling init_document ''letter.odt''
          = (None, init_document\<lparr>file_type :=
                      Some (upper (drop 1 (lower (path_suffix ''letter.odt'')))), pages := 0\<rparr>)"
    by blast
  with 5 a b c show ?thesis by simp
qed

text \<open>
  The claim C7 as it is written fails for a DOCX file: with no package installed,
  \<open>detect_type\<close> returns without an error and reports 0 pages.
\<close>

theorem C7_counterexample:
  "lower (path_suffix ''report.docx'') = ''.docx'' \<and>
   convert_page_count no_tooling ''report.docx'' = ImportError \<and>
   detect_type no_tooling init_document ''report.docx''
     = (None, \<lparr>file_type = Some ''DOCX'', objects = [], obj_index = 0, pages = 0\<rparr>)"
  by code_simp

text \<open>
  C8, as the code has it. For a path whose extension is none of the recognized ones,
  \<open>detect_type\<close> does not fail and sets the page count to 0; the file type is the
  extension without its dot, in upper case, and \<open>UNKNOWN\<close> only when that is empty (as
  it is for a path with no extension).
\<close>

theorem C8_unrecognized_extension:
  assumes "lower (path_suffix p)
             \<notin> {''.pdf'', ''.pptx'', ''.tif'', ''.tiff'', ''.docx'', ''.odt'', ''.rtf''}"
  shows "fst (detect_type env d p) = None \<and>
         pages (snd (detect_type env d p)) = 0 \<and>
         file_type (snd (detect_type env d p))
           = Some (if upper (lstrip_dot (lower (path_suffix p))) = [] then ''UNKNOWN''
                   else upper (lstrip_dot (lower (path_suffix p)))) \<and>
         (path_suffix p = [] \<longrightarrow> file_type (snd (detect_type env d p)) = Some ''UNKNOWN'')"
  using assms by (simp add: detect_type_def Let_def lower_def upper_def lstrip_dot_def)

theorem C8_unrecognized_extension_witness:
  "fst (detect_type no_tooling init_document ''README'') = None \<and>
   pages (snd (detect_type no_tooling init_document ''README'')) = 0 \<and>
   file_type (snd (detect_type no_tooling init_document ''README'')) = Some ''UNKNOWN''"
proof -
  have 1: "lower (path_suffix ''README'')
             \<notin> {''.pdf'', ''.pptx'', ''.tif'', ''.tiff'', ''.docx'', ''.odt'', ''.rtf''}"
    by code_simp
  have 2: "path_suffix ''README'' = []" by code_simp
  from C8_unrecognized_extension [OF 1, of no_tooling init_document] 2
  show ?thesis by blast
qed

text \<open>
  The claim C8 as it is written fails for a text file: its type becomes \<open>TXT\<close>, not
  \<open>UNKNOWN\<close>.
\<close>

theorem C8_counterexample:
  "lower (path_suffix ''notes.txt'')
     \<notin> {''.pdf'', ''.pptx'', ''.tif'', ''.tiff'', ''.docx'', ''.odt'', ''.rtf''} \<and>
   file_type (snd (detect_type no_tooling init_document ''notes.txt'')) = Some ''TXT'' \<and>
   file_type (snd (detect_type no_tooling init_document ''notes.txt'')) \<noteq> Some ''UNKNOWN''"
  by code_simp

section \<open>Properties of the worker\<close>

lemma appends_append [simp]: "appends (xs @ ys) = appends xs @ appends ys"
  by (simp add: appends_def)

lemma ocr_pages_of_append [simp]: "ocr_pages_of (xs @ ys) = ocr_pages_of xs @ ocr_pages_of ys"
  by (simp add: ocr_pages_of_def)

lemma renders_of_append [simp]: "renders_of (xs @ ys) = renders_of xs @ renders_of ys"
  by (simp add: renders_of_def)

lemma appends_Nil [simp]: "appends [] = []"
  by (simp add: appends_def)

lemma appends_Cons [simp]: "appends (e # es) = (if is_append e then e # appends es else appends es)"
  by (simp add: appends_def)

lemma ocr_pages_of_Nil [simp]: "ocr_pages_of [] = []"
  by (simp add: ocr_pages_of_def)

lemma ocr_pages_of_Cons [simp]:
  "ocr_pages_of (e # es) = (case e of OcrPage n \<Rightarrow> [n] | _ \<Rightarrow> []) @ ocr_pages_of es"
  by (simp add: ocr_pages_of_def)

lemma renders_of_Nil [simp]: "renders_of [] = []"
  by (simp add: renders_of_def)

lemma renders_of_Cons [simp]:
  "renders_of (e # es) = (case e of ConvertFromPath s e \<Rightarrow> [(s, e)] | _ \<Rightarrow> []) @ renders_of es"
  by (simp add: renders_of_def)

lemma emit_simps [simp]:
  "trace (emit e st) = trace st @ [e]"
  "was_cancelled (emit e st) = was_cancelled st"
  "any_batch_processed_successfully (emit e st) = any_batch_processed_successfully st"
  "final_status (emit e st) = final_status st"
  "reads (emit e st) = reads st"
  "processed_page_count_in_run (emit e st) = processed_page_count_in_run st"
  by (simp_all add: emit_def)

lemma cancel_simps [simp]:
  "trace (cancel m st) = trace st"
  "was_cancelled (cancel m st) = True"
  "any_batch_processed_successfully (cancel m st) = any_batch_processed_successfully st"
  "final_status (cancel m st) = m"
  "reads (cancel m st) = reads st"
  "processed_page_count_in_run (cancel m st) = processed_page_count_in_run st"
  by (simp_all add: cancel_def)

lemma check_cancel_simps [simp]:
  "fst (check_cancel env st) = is_set env (reads st)"
  "trace (snd (check_cancel env st)) = trace st @ [IsSet (is_set env (reads st))]"
  "was_cancelled (snd (check_cancel env st)) = was_cancelled st"
  "any_batch_processed_successfully (snd (check_cancel env st)) = any_batch_processed_successfully st"
  "final_status (snd (check_cancel env st)) = final_status st"
  "reads (snd (check_cancel env st)) = Suc (reads st)"
  "processed_page_count_in_run (snd (check_cancel env st)) = processed_page_count_in_run st"
  by (simp_all add: check_cancel_def)

lemma process_page_flag:
  assumes "process_page env s t i img st results had = (brk, st', res', had')"
    and "\<not> was_cancelled st"
  shows "brk = was_cancelled st'"
  using assms
  by (auto simp: process_page_def Let_def split_def split: if_splits sum.splits)

lemma process_page_keeps:
  assumes "process_page env s t i img st results had = (brk, st', res', had')"
  shows "any_batch_processed_successfully st' = any_batch_processed_successfully st"
    and "appends (trace st') = appends (trace st)"
    and "renders_of (trace st') = renders_of (trace st)"
  using assms
  by (auto simp: process_page_def Let_def split_def split: if_splits sum.splits)

lemma process_page_inv:
  assumes "process_page env s t i img st results had = (brk, st', res', had')"
    and "\<not> was_cancelled st" and "cancel_inv st"
  shows "cancel_inv st'"
  using assms
  by (auto simp: process_page_def Let_def split_def cancel_inv_def butlast_append
      split: if_splits sum.splits)

lemma process_page_done:
  assumes "process_page env s t i img st results had = (brk, st', res', had')"
    and "\<not> was_cancelled st" and "\<not> was_cancelled st'"
  shows "res' = results @ [page_block (s + int i) (fst (page_outcome env (s + int i) img))]"
    and "had' = (had \<or> snd (page_outcome env (s + int i) img))"
    and "ocr_pages_of (trace st') = ocr_pages_of (trace st) @ [s + int i]"
    and "final_status st' = final_status st"
    and "processed_page_count_in_run st' = processed_page_count_in_run st + 1"
  using assms
  by (auto simp: process_page_def Let_def split_def page_outcome_def split: if_splits sum.splits)

lemma process_page_ocr:
  assumes "process_page env s t i img st results had = (brk, st', res', had')"
  shows "ocr_pages_of (trace st') = ocr_pages_of (trace st) \<or>
         ocr_pages_of (trace st') = ocr_pages_of (trace st) @ [s + int i]"
  using assms
  by (auto simp: process_page_def Let_def split_def split: if_splits sum.splits)

lemma process_page_never:
  assumes "\<forall>k. \<not> is_set env k" and "\<not> was_cancelled st"
  shows "\<not> was_cancelled (fst (snd (process_page env s t i img st results had)))"
  using assms
  by (auto simp: process_page_def Let_def split_def split: if_splits sum.splits)

lemma process_pages_keeps:
  assumes "process_pages env s t i imgs st results had = (st', res', had')"
  shows "any_batch_processed_successfully st' = any_batch_processed_successfully st \<and>
         appends (trace st') = appends (trace st) \<and>
         renders_of (trace st') = renders_of (trace st)"
  using assms
proof (induction imgs arbitrary: i st results had)
  case Nil
  then show ?case by simp
next
  case (Cons im imgs)
  obtain brk st1 r1 h1 where p: "process_page env s t i im st results had = (brk, st1, r1, h1)"
    by (cases "process_page env s t i im st results had") auto
  note k = process_page_keeps [OF p]
  show ?case
  proof (cases brk)
    case True
    with Cons.prems p k show ?thesis by simp
  next
    case False
    with Cons.prems p have "process_pages env s t (Suc i) imgs st1 r1 h1 = (st', res', had')"
      by simp
    from Cons.IH [OF this] k show ?thesis by simp
  qed
qed

lemma process_pages_inv:
  assumes "process_pages env s t i imgs st results had = (st', res', had')"
    and "\<not> was_cancelled st" and "cancel_inv st"
  shows "cancel_inv st'"
  using assms
proof (induction imgs arbitrary: i st results had)
  case Nil
  then show ?case by simp
next
  case (Cons im imgs)
  obtain brk st1 r1 h1 where p: "process_page env s t i im st results had = (brk, st1, r1, h1)"
    by (cases "process_page env s t i im st results had") auto
  have inv1: "cancel_inv st1" by (rule process_page_inv [OF p Cons.prems(2,3)])
  have fl: "brk = was_cancelled st1" by (rule process_page_flag [OF p Cons.prems(2)])
  show ?case
  proof (cases brk)
    case True
    with Cons.prems p inv1 show ?thesis by simp
  next
    case False
    with Cons.prems p have "process_pages env s t (Suc i) imgs st1 r1 h1 = (st', res', had')"
      by simp
    from Cons.IH [OF this] False fl inv1 show ?thesis by simp
  qed
qed

lemma process_pages_done:
  assumes "process_pages env s t i imgs st results had = (st', res', had')"
    and "\<not> was_cancelled st" and "\<not> was_cancelled st'"
  shows "res' = results @ batch_blocks env s i imgs \<and>
         had' = (had \<or> batch_errors env s i imgs) \<and>
         ocr_pages_of (trace st') = ocr_pages_of (trace st) @ map (\<lambda>k. s + int k) [i..<i + length imgs] \<and>
         final_status st' = final_status st \<and>
         processed_page_count_in_run st' = processed_page_count_in_run st + int (length imgs)"
  using assms
proof (induction imgs arbitrary: i st results had)
  case Nil
  then show ?case by (simp add: batch_blocks_def batch_errors_def)
next
  case (Cons im imgs)
  obtain brk st1 r1 h1 where p: "process_page env s t i im st results had = (brk, st1, r1, h1)"
    by (cases "process_page env s t i im st results had") auto
  have fl: "brk = was_cancelled st1" by (rule process_page_flag [OF p Cons.prems(2)])
  show ?case
  proof (cases brk)
    case True
    with Cons.prems p fl show ?thesis by simp
  next
    case False
    with Cons.prems p have r: "process_pages env s t (Suc i) imgs st1 r1 h1 = (st', res', had')"
      by simp
    from False fl have nc: "\<not> was_cancelled st1" by simp
    note d = process_page_done [OF p Cons.prems(2) nc]
    note ih = Cons.IH [OF r nc Cons.prems(3)]
    have u: "[i..<i + length (im # imgs)] = i # [Suc i..<Suc i + length imgs]"
      using upt_conv_Cons [of i "i + length (im # imgs)"] by simp
    from ih d show ?thesis
      unfolding u by (simp add: batch_blocks_def batch_errors_def enumerate_simps)
  qed
qed

lemma process_pages_never:
  assumes "\<forall>k. \<not> is_set env k" and "\<not> was_cancelled st"
  shows "\<not> was_cancelled (fst (process_pages env s t i imgs st results had))"
  using assms(2)
proof (induction imgs arbitrary: i st results had)
  case Nil
  then show ?case by simp
next
  case (Cons im imgs)
  obtain brk st1 r1 h1 where p: "process_page env s t i im st results had = (brk, st1, r1, h1)"
    by (cases "process_page env s t i im st results had") auto
  from process_page_never [OF assms(1) Cons.prems, of s t i im results had] p
  have nc: "\<not> was_cancelled st1" by simp
  with process_page_flag [OF p Cons.prems] have "\<not> brk" by simp
  with p Cons.IH [OF nc] show ?case by simp
qed

lemma process_pages_ocr:
  assumes "process_pages env s t i imgs st results had = (st', res', had')"
  shows "\<exists>m \<le> length imgs.
           ocr_pages_of (trace st') = ocr_pages_of (trace st) @ map (\<lambda>k. s + int k) [i..<i + m]"
  using assms
proof (induction imgs arbitrary: i st results had)
  case Nil
  then show ?case by simp
next
  case (Cons im imgs)
  obtain brk st1 r1 h1 where p: "process_page env s t i im st results had = (brk, st1, r1, h1)"
    by (cases "process_page env s t i im st results had") auto
  note o = process_page_ocr [OF p]
  show ?case
  proof (cases brk)
    case True
    with Cons.prems p have e: "st' = st1" by simp
    from o show ?thesis
    proof
      assume "ocr_pages_of (trace st1) = ocr_pages_of (trace st)"
      with e have "ocr_pages_of (trace st') = ocr_pages_of (trace st) @ map (\<lambda>k. s + int k) [i..<i + 0]"
        by simp
      then show ?thesis by blast
    next
      assume "ocr_pages_of (trace st1) = ocr_pages_of (trace st) @ [s + int i]"
      with e have "ocr_pages_of (trace st') = ocr_pages_of (trace st) @ map (\<lambda>k. s + int k) [i..<i + 1]"
        by simp
      moreover have "1 \<le> length (im # imgs)" by simp
      ultimately show ?thesis by blast
    qed
  next
    case False
    with Cons.prems p have r: "process_pages env s t (Suc i) imgs st1 r1 h1 = (st', res', had')"
      by simp
    from False p have o1: "ocr_pages_of (trace st1) = ocr_pages_of (trace st) @ [s + int i]"
      by (auto simp: process_page_def Let_def split_def split: if_splits sum.splits)
    from Cons.IH [OF r] obtain m where m: "m \<le> length imgs"
      "ocr_pages_of (trace st') = ocr_pages_of (trace st1) @ map (\<lambda>k. s + int k) [Suc i..<Suc i + m]"
      by blast
    have "[i..<i + Suc m] = i # [Suc i..<Suc i + m]"
      using upt_conv_Cons [of i "i + Suc m"] by simp
    with m o1 have "ocr_pages_of (trace st') = ocr_pages_of (trace st) @ map (\<lambda>k. s + int k) [i..<i + Suc m]"
      by simp
    moreover from m have "Suc m \<le> length (im # imgs)" by simp
    ultimately show ?thesis by blast
  qed
qed

lemma loaded_simps [simp]:
  "trace (loaded env s e st) =
     trace st @ [IsSet (is_set env (reads st)),
                 UpdateStatus (''Loading batch: Pages '' @ str_int s @ '' to '' @ str_int e @ ''...''),
                 ConvertFromPath s e]"
  "was_cancelled (loaded env s e st) = was_cancelled st"
  "any_batch_processed_successfully (loaded env s e st) = any_batch_processed_successfully st"
  "final_status (loaded env s e st) = final_status st"
  "reads (loaded env s e st) = Suc (reads st)"
  by (simp_all add: loaded_def)

lemma load_batch_nonempty: "load_batch env pdf s e = Inr imgs \<Longrightarrow> imgs \<noteq> []"
  by (auto simp: load_batch_def split: sum.splits list.splits)

lemma process_batch_set:
  assumes "is_set env (reads st)"
  shows "process_batch env pdf end_page bsz t s st =
           (Break, cancel ''OCR process cancelled by user.'' (snd (check_cancel env st)))"
  using assms by (simp add: process_batch_def split_def)

lemma process_batch_Inl:
  assumes "\<not> is_set env (reads st)"
    and "load_batch env pdf s (min (s + bsz - 1) end_page) = Inl err"
  shows "process_batch env pdf end_page bsz t s st =
           (let e = min (s + bsz - 1) end_page; st3 = loaded env s e st in
            if is_set env (reads st3) then (Break, cancel ''OCR cancelled.'' (snd (check_cancel env st3)))
            else
              (let st5 = emit (ShowMessagebox ''warning'' ''Batch Loading Error''
                           (''Could not load batch '' @ str_int s @ ''-'' @ str_int e @ '': '' @ err
                            @ NL @ ''Skipping batch.'')) (snd (check_cancel env st3));
                   st6 = st5\<lparr>processed_page_count_in_run :=
                               processed_page_count_in_run st5 + (e - s + 1)\<rparr>
               in (Next, if \<not> was_cancelled st6
                         then emit (AppendText [] (batch_error_text s e err)) st6 else st6)))"
  using assms by (simp add: process_batch_def split_def Let_def loaded_def batch_error_text_def)

lemma process_batch_Inr:
  assumes "\<not> is_set env (reads st)"
    and "load_batch env pdf s (min (s + bsz - 1) end_page) = Inr imgs"
    and "process_pages env s t 0 imgs (loaded env s (min (s + bsz - 1) end_page) st) [] False
           = (st4, r4, h4)"
  shows "process_batch env pdf end_page bsz t s st =
           (let st5 = (if \<not> was_cancelled st4 \<and> r4 \<noteq> [] then
                         (let st' = emit (AppendBatch (join NL r4)) st4 in
                          if \<not> h4 then st'\<lparr>any_batch_processed_successfully := True\<rparr> else st')
                       else st4)
            in (if was_cancelled st5 then Break else Next, st5))"
  using assms by (simp add: process_batch_def split_def Let_def loaded_def)

lemma cancel_inv_loaded:
  "\<not> was_cancelled st \<Longrightarrow> cancel_inv st \<Longrightarrow> \<not> is_set env (reads st)
     \<Longrightarrow> cancel_inv (loaded env s e st)"
  by (simp add: cancel_inv_def)

lemma process_batch_inv:
  assumes pb: "process_batch env pdf end_page bsz t s st = (fl, st')"
    and nc: "\<not> was_cancelled st" and inv: "cancel_inv st"
  shows "(fl = Break) = was_cancelled st' \<and> cancel_inv st'"
proof (cases "is_set env (reads st)")
  case True
  from pb inv nc show ?thesis
    unfolding process_batch_set [OF True]
    by (auto simp: cancel_inv_def butlast_append True)
next
  case False
  let ?e = "min (s + bsz - 1) end_page"
  show ?thesis
  proof (cases "load_batch env pdf s ?e")
    case (Inl err)
    from pb inv nc False show ?thesis
      unfolding process_batch_Inl [OF False Inl]
      by (auto simp: Let_def cancel_inv_def butlast_append split: if_splits)
  next
    case (Inr imgs)
    obtain st4 r4 h4 where
      pp: "process_pages env s t 0 imgs (loaded env s ?e st) [] False = (st4, r4, h4)"
      by (cases "process_pages env s t 0 imgs (loaded env s ?e st) [] False") auto
    have nc3: "\<not> was_cancelled (loaded env s ?e st)" using nc by simp
    have inv4: "cancel_inv st4"
      by (rule process_pages_inv [OF pp nc3 cancel_inv_loaded [OF nc inv False]])
    from pb inv4 show ?thesis
      unfolding process_batch_Inr [OF False Inr pp]
      by (auto simp: Let_def cancel_inv_def split: if_splits)
  qed
qed

lemma process_batch_cancelled:
  assumes pb: "process_batch env pdf end_page bsz t s st = (fl, st')"
    and nc: "\<not> was_cancelled st" and c: "was_cancelled st'"
  shows "appends (trace st') = appends (trace st) \<and>
         any_batch_processed_successfully st' = any_batch_processed_successfully st"
proof (cases "is_set env (reads st)")
  case True
  from pb show ?thesis
    unfolding process_batch_set [OF True] by auto
next
  case False
  let ?e = "min (s + bsz - 1) end_page"
  show ?thesis
  proof (cases "load_batch env pdf s ?e")
    case (Inl err)
    from pb nc c show ?thesis
      unfolding process_batch_Inl [OF False Inl]
      by (auto simp: Let_def split: if_splits)
  next
    case (Inr imgs)
    obtain st4 r4 h4 where
      pp: "process_pages env s t 0 imgs (loaded env s ?e st) [] False = (st4, r4, h4)"
      by (cases "process_pages env s t 0 imgs (loaded env s ?e st) [] False") auto
    from process_pages_keeps [OF pp] pb c show ?thesis
      unfolding process_batch_Inr [OF False Inr pp]
      by (auto simp: Let_def split: if_splits)
  qed
qed

lemma process_batch_done:
  assumes pb: "process_batch env pdf end_page bsz t s st = (fl, st')"
    and nc: "\<not> was_cancelled st" and c: "\<not> was_cancelled st'"
  shows "appends (trace st') = appends (trace st) @ [batch_commit env pdf s (min (s + bsz - 1) end_page)] \<and>
         any_batch_processed_successfully st' =
           (any_batch_processed_successfully st \<or> batch_clean env pdf s (min (s + bsz - 1) end_page)) \<and>
         ocr_pages_of (trace st') = ocr_pages_of (trace st) @ batch_pages env pdf s (min (s + bsz - 1) end_page) \<and>
         renders_of (trace st') = renders_of (trace st) @ [(s, min (s + bsz - 1) end_page)] \<and>
         final_status st' = final_status st"
proof (cases "is_set env (reads st)")
  case True
  from pb c show ?thesis
    unfolding process_batch_set [OF True] by auto
next
  case False
  let ?e = "min (s + bsz - 1) end_page"
  show ?thesis
  proof (cases "load_batch env pdf s ?e")
    case (Inl err)
    from pb nc c show ?thesis
      unfolding process_batch_Inl [OF False Inl]
      by (auto simp: Let_def batch_commit_def batch_clean_def batch_pages_def Inl split: if_splits)
  next
    case (Inr imgs)
    obtain st4 r4 h4 where
      pp: "process_pages env s t 0 imgs (loaded env s ?e st) [] False = (st4, r4, h4)"
      by (cases "process_pages env s t 0 imgs (loaded env s ?e st) [] False") auto
    have nc3: "\<not> was_cancelled (loaded env s ?e st)" using nc by simp
    from pb c have nc4: "\<not> was_cancelled st4"
      unfolding process_batch_Inr [OF False Inr pp]
      by (auto simp: Let_def split: if_splits)
    note d = process_pages_done [OF pp nc3 nc4]
    note k = process_pages_keeps [OF pp]
    from load_batch_nonempty [OF Inr] have "batch_blocks env s 0 imgs \<noteq> []"
      by (cases imgs) (simp_all add: batch_blocks_def)
    with d k pb nc4 show ?thesis
      unfolding process_batch_Inr [OF False Inr pp]
      by (auto simp: Let_def batch_commit_def batch_clean_def batch_pages_def Inr split: if_splits)
  qed
qed

lemma process_batch_never:
  assumes ns: "\<forall>k. \<not> is_set env k" and nc: "\<not> was_cancelled st"
  shows "\<not> was_cancelled (snd (process_batch env pdf end_page bsz t s st))"
proof -
  let ?e = "min (s + bsz - 1) end_page"
  from ns have False: "\<not> is_set env (reads st)" by simp
  show ?thesis
  proof (cases "load_batch env pdf s ?e")
    case (Inl err)
    from ns nc show ?thesis
      unfolding process_batch_Inl [OF False Inl]
      by (auto simp: Let_def split: if_splits)
  next
    case (Inr imgs)
    obtain st4 r4 h4 where
      pp: "process_pages env s t 0 imgs (loaded env s ?e st) [] False = (st4, r4, h4)"
      by (cases "process_pages env s t 0 imgs (loaded env s ?e st) [] False") auto
    have nc3: "\<not> was_cancelled (loaded env s ?e st)" using nc by simp
    from process_pages_never [OF ns nc3, of s t 0 imgs "[]" False] pp
    have "\<not> was_cancelled st4" by simp
    then show ?thesis
      unfolding process_batch_Inr [OF False Inr pp]
      by (auto simp: Let_def split: if_splits)
  qed
qed

lemma process_batch_flag:
  assumes pb: "process_batch env pdf end_page bsz t s st = (fl, st')"
    and nc: "\<not> was_cancelled st"
  shows "(fl = Break) = was_cancelled st'"
proof (cases "is_set env (reads st)")
  case True
  from pb show ?thesis
    unfolding process_batch_set [OF True] by auto
next
  case False
  let ?e = "min (s + bsz - 1) end_page"
  show ?thesis
  proof (cases "load_batch env pdf s ?e")
    case (Inl err)
    from pb nc show ?thesis
      unfolding process_batch_Inl [OF False Inl]
      by (auto simp: Let_def split: if_splits)
  next
    case (Inr imgs)
    obtain st4 r4 h4 where
      pp: "process_pages env s t 0 imgs (loaded env s ?e st) [] False = (st4, r4, h4)"
      by (cases "process_pages env s t 0 imgs (loaded env s ?e st) [] False") auto
    from pb show ?thesis
      unfolding process_batch_Inr [OF False Inr pp]
      by (auto simp: Let_def split: if_splits)
  qed
qed

lemma batch_loop_inv:
  assumes "\<not> was_cancelled st" and "cancel_inv st"
  shows "cancel_inv (batch_loop env pdf end_page bsz t starts st)"
  using assms
proof (induction starts arbitrary: st)
  case Nil
  then show ?case by simp
next
  case (Cons s rest)
  obtain fl st1 where pb: "process_batch env pdf end_page bsz t s st = (fl, st1)"
    by (cases "process_batch env pdf end_page bsz t s st") auto
  from process_batch_inv [OF pb Cons.prems]
  have f: "(fl = Break) = was_cancelled st1" and i: "cancel_inv st1" by simp_all
  show ?case
  proof (cases fl)
    case Break
    with pb i show ?thesis by simp
  next
    case Next
    with f have "\<not> was_cancelled st1" by simp
    from Cons.IH [OF this i] pb Next show ?thesis by simp
  qed
qed

lemma batch_loop_done:
  assumes "\<not> was_cancelled st"
    and "\<not> was_cancelled (batch_loop env pdf end_page bsz t starts st)"
  shows "appends (trace (batch_loop env pdf end_page bsz t starts st)) =
           appends (trace st) @ map (\<lambda>s. batch_commit env pdf s (min (s + bsz - 1) end_page)) starts \<and>
         any_batch_processed_successfully (batch_loop env pdf end_page bsz t starts st) =
           (any_batch_processed_successfully st
            \<or> list_ex (\<lambda>s. batch_clean env pdf s (min (s + bsz - 1) end_page)) starts) \<and>
         ocr_pages_of (trace (batch_loop env pdf end_page bsz t starts st)) =
           ocr_pages_of (trace st)
             @ concat (map (\<lambda>s. batch_pages env pdf s (min (s + bsz - 1) end_page)) starts) \<and>
         renders_of (trace (batch_loop env pdf end_page bsz t starts st)) =
           renders_of (trace st) @ map (\<lambda>s. (s, min (s + bsz - 1) end_page)) starts \<and>
         final_status (batch_loop env pdf end_page bsz t starts st) = final_status st"
  using assms
proof (induction starts arbitrary: st)
  case Nil
  then show ?case by simp
next
  case (Cons s rest)
  obtain fl st1 where pb: "process_batch env pdf end_page bsz t s st = (fl, st1)"
    by (cases "process_batch env pdf end_page bsz t s st") auto
  note f = process_batch_flag [OF pb Cons.prems(1)]
  show ?case
  proof (cases fl)
    case Break
    with pb f Cons.prems show ?thesis by simp
  next
    case Next
    with f have nc1: "\<not> was_cancelled st1" by simp
    from pb Next have e: "batch_loop env pdf end_page bsz t (s # rest) st
                            = batch_loop env pdf end_page bsz t rest st1"
      by simp
    with Cons.prems have "\<not> was_cancelled (batch_loop env pdf end_page bsz t rest st1)" by simp
    note ih = Cons.IH [OF nc1 this]
    note d = process_batch_done [OF pb Cons.prems(1) nc1]
    from ih d show ?thesis unfolding e by auto
  qed
qed

lemma batch_loop_cancelled:
  assumes "\<not> was_cancelled st"
    and "was_cancelled (batch_loop env pdf end_page bsz t starts st)"
  shows "\<exists>k < length starts.
           appends (trace (batch_loop env pdf end_page bsz t starts st)) =
             appends (trace st)
               @ map (\<lambda>s. batch_commit env pdf s (min (s + bsz - 1) end_page)) (take k starts)"
  using assms
proof (induction starts arbitrary: st)
  case Nil
  then show ?case by simp
next
  case (Cons s rest)
  obtain fl st1 where pb: "process_batch env pdf end_page bsz t s st = (fl, st1)"
    by (cases "process_batch env pdf end_page bsz t s st") auto
  note f = process_batch_flag [OF pb Cons.prems(1)]
  show ?case
  proof (cases fl)
    case Break
    with f have c1: "was_cancelled st1" by simp
    from process_batch_cancelled [OF pb Cons.prems(1) c1] pb Break
    have "appends (trace (batch_loop env pdf end_page bsz t (s # rest) st)) =
            appends (trace st)
              @ map (\<lambda>s. batch_commit env pdf s (min (s + bsz - 1) end_page)) (take 0 (s # rest))"
      by simp
    moreover have "0 < length (s # rest)" by simp
    ultimately show ?thesis by blast
  next
    case Next
    with f have nc1: "\<not> was_cancelled st1" by simp
    from pb Next have e: "batch_loop env pdf end_page bsz t (s # rest) st
                            = batch_loop env pdf end_page bsz t rest st1"
      by simp
    with Cons.prems have "was_cancelled (batch_loop env pdf end_page bsz t rest st1)" by simp
    from Cons.IH [OF nc1 this] obtain k where k: "k < length rest"
      "appends (trace (batch_loop env pdf end_page bsz t rest st1)) =
         appends (trace st1)
           @ map (\<lambda>s. batch_commit env pdf s (min (s + bsz - 1) end_page)) (take k rest)"
      by blast
    note d = process_batch_done [OF pb Cons.prems(1) nc1]
    from k d have "appends (trace (batch_loop env pdf end_page bsz t (s # rest) st)) =
         appends (trace st)
           @ map (\<lambda>s. batch_commit env pdf s (min (s + bsz - 1) end_page)) (take (Suc k) (s # rest))"
      unfolding e by simp
    moreover from k have "Suc k < length (s # rest)" by simp
    ultimately show ?thesis by blast
  qed
qed

lemma batch_loop_never:
  assumes ns: "\<forall>k. \<not> is_set env k" and nc: "\<not> was_cancelled st"
  shows "\<not> was_cancelled (batch_loop env pdf end_page bsz t starts st)"
  using nc
proof (induction starts arbitrary: st)
  case Nil
  then show ?case by simp
next
  case (Cons s rest)
  obtain fl st1 where pb: "process_batch env pdf end_page bsz t s st = (fl, st1)"
    by (cases "process_batch env pdf end_page bsz t s st") auto
  from process_batch_never [OF ns Cons.prems, of pdf end_page bsz t s] pb
  have nc1: "\<not> was_cancelled st1" by simp
  with process_batch_flag [OF pb Cons.prems] have "fl = Next" by (cases fl) simp_all
  with pb Cons.IH [OF nc1] show ?case by simp
qed

lemma range_up_partition:
  "1 \<le> bsz \<Longrightarrow>
   concat (map (\<lambda>s. [s..min (s + bsz - 1) end_page]) (range_up i (end_page + 1) bsz)) = [i..end_page]"
proof (induction i "end_page + 1" bsz rule: range_up.induct)
  case (1 i step)
  show ?case
  proof (cases "i \<le> end_page")
    case True
    with 1 have ih: "concat (map (\<lambda>s. [s..min (s + step - 1) end_page])
                       (range_up (i + step) (end_page + 1) step)) = [i + step..end_page]"
      by simp
    have r: "range_up i (end_page + 1) step = i # range_up (i + step) (end_page + 1) step"
      using True 1(2) by (subst range_up.simps) simp
    show ?thesis
    proof (cases "i + step - 1 < end_page")
      case True
      then have "[i..end_page] = [i..i + step - 1] @ [i + step..end_page]"
        using 1(2) upto_split1 [of i "i + step" end_page] by simp
      with True ih r show ?thesis by (simp add: min_def)
    next
      case False
      then have "[i + step..end_page] = []" by simp
      with False ih r show ?thesis by (simp add: min_def)
    qed
  next
    case False
    then have "range_up i (end_page + 1) step = []"
      by (subst range_up.simps) simp
    with False show ?thesis by simp
  qed
qed

lemma range_up_bounds:
  "1 \<le> bsz \<Longrightarrow> s \<in> set (range_up i (end_page + 1) bsz)
     \<Longrightarrow> i \<le> s \<and> s \<le> end_page"
proof (induction i "end_page + 1" bsz rule: range_up.induct)
  case (1 i step)
  show ?case
  proof (cases "i \<le> end_page")
    case True
    have r: "range_up i (end_page + 1) step = i # range_up (i + step) (end_page + 1) step"
      using True 1(2) by (subst range_up.simps) simp
    from 1(3) r have "s = i \<or> s \<in> set (range_up (i + step) (end_page + 1) step)" by simp
    then show ?thesis
    proof
      assume "s = i" with True show ?thesis by simp
    next
      assume "s \<in> set (range_up (i + step) (end_page + 1) step)"
      with 1(1) [OF _ 1(2)] True 1(2) have "i + step \<le> s \<and> s \<le> end_page" by simp
      with 1(2) show ?thesis by simp
    qed
  next
    case False
    then have "range_up i (end_page + 1) step = []"
      by (subst range_up.simps) simp
    with 1(3) show ?thesis by simp
  qed
qed

lemma map_upt_upto: "map (\<lambda>k. s + int k) [0..<n] = [s..s + int n - 1]"
proof (induction n)
  case 0
  show ?case by simp
next
  case (Suc n)
  have "[s..s + int (Suc n) - 1] = [s..s + int n - 1] @ [s + int n]"
    using upto_rec2 [of s "s + int n"] by simp
  with Suc show ?case by simp
qed

lemma worker_unfold:
  assumes "1 \<le> bsz"
  shows "ocr_worker_thread env pdf start_page end_page bsz =
     (let st1 = batch_loop env pdf end_page bsz (end_page - start_page + 1)
                  (range_up start_page (end_page + 1) bsz) init_wstate;
          st2 = (if \<not> was_cancelled st1 then
                   st1\<lparr>final_status :=
                         (if \<not> any_batch_processed_successfully st1
                          then ''OCR finished, but encountered errors or no text was processed.''
                          else ''OCR process completed.'')\<rparr>
                 else st1)
      in emit (UpdateStatus (final_status st2)) st2)"
  using assms by (simp add: ocr_worker_thread_def py_range_def Let_def)

lemma init_wstate_inv: "\<not> was_cancelled init_wstate \<and> cancel_inv init_wstate"
  by (simp add: init_wstate_def cancel_inv_def)

lemma init_wstate_proj [simp]:
  "trace init_wstate = []" "\<not> was_cancelled init_wstate"
  "\<not> any_batch_processed_successfully init_wstate"
  by (simp_all add: init_wstate_def)

lemma worker_cancelled:
  assumes "1 \<le> bsz"
  shows "was_cancelled (ocr_worker_thread env pdf start_page end_page bsz) =
         was_cancelled (batch_loop env pdf end_page bsz (end_page - start_page + 1)
                  (range_up start_page (end_page + 1) bsz) init_wstate)"
    and "trace (ocr_worker_thread env pdf start_page end_page bsz) =
         trace (batch_loop env pdf end_page bsz (end_page - start_page + 1)
                  (range_up start_page (end_page + 1) bsz) init_wstate)
           @ [UpdateStatus (final_status (ocr_worker_thread env pdf start_page end_page bsz))]"
    and "any_batch_processed_successfully (ocr_worker_thread env pdf start_page end_page bsz) =
         any_batch_processed_successfully (batch_loop env pdf end_page bsz (end_page - start_page + 1)
                  (range_up start_page (end_page + 1) bsz) init_wstate)"
    and "final_status (ocr_worker_thread env pdf start_page end_page bsz) =
         (let st1 = batch_loop env pdf end_page bsz (end_page - start_page + 1)
                  (range_up start_page (end_page + 1) bsz) init_wstate in
          if was_cancelled st1 then final_status st1
          else if any_batch_processed_successfully st1 then ''OCR process completed.''
          else ''OCR finished, but encountered errors or no text was processed.'')"
  unfolding worker_unfold [OF assms] by (simp_all add: Let_def)

lemma process_batch_renders:
  assumes pb: "process_batch env pdf end_page bsz t s st = (fl, st')"
  shows "renders_of (trace st') = renders_of (trace st) \<or>
         renders_of (trace st') = renders_of (trace st) @ [(s, min (s + bsz - 1) end_page)]"
proof (cases "is_set env (reads st)")
  case True
  from pb show ?thesis
    unfolding process_batch_set [OF True] by auto
next
  case False
  let ?e = "min (s + bsz - 1) end_page"
  show ?thesis
  proof (cases "load_batch env pdf s ?e")
    case (Inl err)
    from pb show ?thesis
      unfolding process_batch_Inl [OF False Inl]
      by (auto simp: Let_def split: if_splits)
  next
    case (Inr imgs)
    obtain st4 r4 h4 where
      pp: "process_pages env s t 0 imgs (loaded env s ?e st) [] False = (st4, r4, h4)"
      by (cases "process_pages env s t 0 imgs (loaded env s ?e st) [] False") auto
    from process_pages_keeps [OF pp] pb show ?thesis
      unfolding process_batch_Inr [OF False Inr pp]
      by (auto simp: Let_def split: if_splits)
  qed
qed

lemma process_batch_ocr:
  assumes pb: "process_batch env pdf end_page bsz t s st = (fl, st')"
    and le: "\<forall>imgs. load_batch env pdf s (min (s + bsz - 1) end_page) = Inr imgs
               \<longrightarrow> int (length imgs) \<le> min (s + bsz - 1) end_page - s + 1"
  shows "\<exists>xs. ocr_pages_of (trace st') = ocr_pages_of (trace st) @ xs \<and> sorted_wrt (<) xs \<and>
              (\<forall>x \<in> set xs. s \<le> x \<and> x \<le> min (s + bsz - 1) end_page)"
proof -
  let ?e = "min (s + bsz - 1) end_page"
  have zero: ?thesis if "ocr_pages_of (trace st') = ocr_pages_of (trace st)"
  proof -
    from that have "ocr_pages_of (trace st') = ocr_pages_of (trace st) @ [] \<and> sorted_wrt (<) ([]::int list)
        \<and> (\<forall>x \<in> set ([]::int list). s \<le> x \<and> x \<le> ?e)"
      by simp
    then show ?thesis by blast
  qed
  show ?thesis
  proof (cases "is_set env (reads st)")
    case True
    from pb have "ocr_pages_of (trace st') = ocr_pages_of (trace st)"
      unfolding process_batch_set [OF True] by auto
    then show ?thesis by (rule zero)
  next
    case False
    show ?thesis
    proof (cases "load_batch env pdf s ?e")
      case (Inl err)
      from pb have "ocr_pages_of (trace st') = ocr_pages_of (trace st)"
        unfolding process_batch_Inl [OF False Inl]
        by (auto simp: Let_def split: if_splits)
      then show ?thesis by (rule zero)
    next
      case (Inr imgs)
      obtain st4 r4 h4 where
        pp: "process_pages env s t 0 imgs (loaded env s ?e st) [] False = (st4, r4, h4)"
        by (cases "process_pages env s t 0 imgs (loaded env s ?e st) [] False") auto
      from process_pages_ocr [OF pp] obtain m where m: "m \<le> length imgs"
        "ocr_pages_of (trace st4) = ocr_pages_of (trace (loaded env s ?e st))
           @ map (\<lambda>k. s + int k) [0..<0 + m]"
        by blast
      from pb have "ocr_pages_of (trace st') = ocr_pages_of (trace st4)"
        unfolding process_batch_Inr [OF False Inr pp]
        by (auto simp: Let_def split: if_splits)
      with m(2) have o: "ocr_pages_of (trace st') = ocr_pages_of (trace st) @ [s..s + int m - 1]"
        by (simp add: map_upt_upto)
      from le Inr m(1) have "s + int m - 1 \<le> ?e" by fastforce
      then have "\<forall>x \<in> set [s..s + int m - 1]. s \<le> x \<and> x \<le> ?e" by auto
      with o have "ocr_pages_of (trace st') = ocr_pages_of (trace st) @ [s..s + int m - 1]
          \<and> sorted_wrt (<) [s..s + int m - 1]
          \<and> (\<forall>x \<in> set [s..s + int m - 1]. s \<le> x \<and> x \<le> ?e)"
        by simp
      then show ?thesis by blast
    qed
  qed
qed

lemma batch_loop_renders:
  "\<exists>k \<le> length starts.
     renders_of (trace (batch_loop env pdf end_page bsz t starts st)) =
       renders_of (trace st) @ map (\<lambda>s. (s, min (s + bsz - 1) end_page)) (take k starts)"
proof (induction starts arbitrary: st)
  case Nil
  then show ?case by simp
next
  case (Cons s rest)
  obtain fl st1 where pb: "process_batch env pdf end_page bsz t s st = (fl, st1)"
    by (cases "process_batch env pdf end_page bsz t s st") auto
  note r = process_batch_renders [OF pb]
  show ?case
  proof (cases fl)
    case Break
    with pb have e: "batch_loop env pdf end_page bsz t (s # rest) st = st1" by simp
    from r show ?thesis
    proof
      assume "renders_of (trace st1) = renders_of (trace st)"
      then have "renders_of (trace st1) =
          renders_of (trace st) @ map (\<lambda>s. (s, min (s + bsz - 1) end_page)) (take 0 (s # rest))"
        by simp
      then show ?thesis unfolding e by (intro exI [of _ 0]) simp
    next
      assume "renders_of (trace st1) = renders_of (trace st) @ [(s, min (s + bsz - 1) end_page)]"
      then have "renders_of (trace st1) =
          renders_of (trace st) @ map (\<lambda>s. (s, min (s + bsz - 1) end_page)) (take 1 (s # rest))"
        by simp
      then show ?thesis unfolding e by (intro exI [of _ 1]) simp
    qed
  next
    case Next
    with pb have e: "batch_loop env pdf end_page bsz t (s # rest) st
                       = batch_loop env pdf end_page bsz t rest st1" by simp
    from Cons.IH [of st1] obtain k where k: "k \<le> length rest"
      "renders_of (trace (batch_loop env pdf end_page bsz t rest st1)) =
         renders_of (trace st1) @ map (\<lambda>s. (s, min (s + bsz - 1) end_page)) (take k rest)"
      by blast
    have r1: "renders_of (trace st1) = renders_of (trace st) @ [(s, min (s + bsz - 1) end_page)]"
    proof (cases "is_set env (reads st)")
      case True
      from pb Next show ?thesis unfolding process_batch_set [OF True] by simp
    next
      case False
      show ?thesis
      proof (cases "load_batch env pdf s (min (s + bsz - 1) end_page)")
        case (Inl err)
        from pb show ?thesis
          unfolding process_batch_Inl [OF False Inl]
          by (auto simp: Let_def split: if_splits)
      next
        case (Inr imgs)
        obtain st4 r4 h4 where
          pp: "process_pages env s t 0 imgs (loaded env s (min (s + bsz - 1) end_page) st) [] False
                 = (st4, r4, h4)"
          by (cases "process_pages env s t 0 imgs (loaded env s (min (s + bsz - 1) end_page) st) [] False")
            auto
        from process_pages_keeps [OF pp] pb show ?thesis
          unfolding process_batch_Inr [OF False Inr pp]
          by (auto simp: Let_def split: if_splits)
      qed
    qed
    from k r1 have "renders_of (trace (batch_loop env pdf end_page bsz t rest st1)) =
         renders_of (trace st) @ map (\<lambda>s. (s, min (s + bsz - 1) end_page)) (take (Suc k) (s # rest))"
      by simp
    moreover from k have "Suc k \<le> length (s # rest)" by simp
    ultimately show ?thesis unfolding e by blast
  qed
qed

lemma batch_loop_ocr_sorted:
  assumes bs: "1 \<le> bsz"
    and le: "\<forall>s e imgs. load_batch env pdf s e = Inr imgs \<longrightarrow> int (length imgs) \<le> e - s + 1"
  shows "\<exists>xs. ocr_pages_of (trace (batch_loop env pdf end_page bsz t
                                     (range_up i (end_page + 1) bsz) st))
                = ocr_pages_of (trace st) @ xs \<and> sorted_wrt (<) xs \<and>
              (\<forall>x \<in> set xs. i \<le> x \<and> x \<le> end_page)"
  using bs
proof (induction i "end_page + 1" bsz arbitrary: st rule: range_up.induct)
  case (1 i step)
  show ?case
  proof (cases "i \<le> end_page")
    case False
    then have "range_up i (end_page + 1) step = []"
      by (subst range_up.simps) simp
    then have "ocr_pages_of (trace (batch_loop env pdf end_page step t
                                     (range_up i (end_page + 1) step) st))
                = ocr_pages_of (trace st) @ [] \<and> sorted_wrt (<) ([]::int list) \<and>
              (\<forall>x \<in> set ([]::int list). i \<le> x \<and> x \<le> end_page)"
      by simp
    then show ?thesis by blast
  next
    case True
    have r: "range_up i (end_page + 1) step = i # range_up (i + step) (end_page + 1) step"
      using True 1(2) by (subst range_up.simps) simp
    obtain fl st1 where pb: "process_batch env pdf end_page step t i st = (fl, st1)"
      by (cases "process_batch env pdf end_page step t i st") auto
    from le have le': "\<forall>imgs. load_batch env pdf i (min (i + step - 1) end_page) = Inr imgs
               \<longrightarrow> int (length imgs) \<le> min (i + step - 1) end_page - i + 1"
      by blast
    from process_batch_ocr [OF pb le'] obtain xs where xs:
      "ocr_pages_of (trace st1) = ocr_pages_of (trace st) @ xs" "sorted_wrt (<) xs"
      "\<forall>x \<in> set xs. i \<le> x \<and> x \<le> min (i + step - 1) end_page"
      by blast
    show ?thesis
    proof (cases fl)
      case Break
      with pb r have "batch_loop env pdf end_page step t (range_up i (end_page + 1) step) st = st1"
        by simp
      with xs show ?thesis by auto
    next
      case Next
      with pb r have e: "batch_loop env pdf end_page step t (range_up i (end_page + 1) step) st
          = batch_loop env pdf end_page step t (range_up (i + step) (end_page + 1) step) st1"
        by simp
      from True 1(2) have "0 < step \<and> i < end_page + 1" by simp
      from 1(1) [OF this 1(2), of st1] obtain ys where ys:
        "ocr_pages_of (trace (batch_loop env pdf end_page step t
            (range_up (i + step) (end_page + 1) step) st1)) = ocr_pages_of (trace st1) @ ys"
        "sorted_wrt (<) ys" "\<forall>y \<in> set ys. i + step \<le> y \<and> y \<le> end_page"
        by blast
      have "\<forall>x \<in> set xs. \<forall>y \<in> set ys. x < y"
        using xs(3) ys(3) by fastforce
      with xs(2) ys(2) have "sorted_wrt (<) (xs @ ys)" by (simp add: sorted_wrt_append)
      moreover have "\<forall>x \<in> set (xs @ ys). i \<le> x \<and> x \<le> end_page"
        using xs(3) ys(3) 1(2) by fastforce
      moreover have "ocr_pages_of (trace (batch_loop env pdf end_page step t
            (range_up i (end_page + 1) step) st)) = ocr_pages_of (trace st) @ (xs @ ys)"
        unfolding e using xs(1) ys(1) by simp
      ultimately show ?thesis by blast
    qed
  qed
qed

lemma results_text_appends: "results_text_after r evs = results_text_after r (appends evs)"
  unfolding results_text_after_def
proof (induction evs arbitrary: r)
  case Nil
  show ?case by simp
next
  case (Cons e evs)
  then show ?case by (cases e) simp_all
qed

lemma batch_bounds_sizes:
  assumes "1 \<le> bsz" and "(s, e) \<in> set (batch_bounds start_page end_page bsz)"
  shows "s \<le> e \<and> e - s + 1 \<le> bsz \<and> start_page \<le> s \<and> e \<le> end_page"
proof -
  from assms(2) obtain s' where s': "s' \<in> set (range_up start_page (end_page + 1) bsz)"
    "s = s'" "e = min (s' + bsz - 1) end_page"
    by (auto simp: batch_bounds_def)
  from range_up_bounds [OF assms(1) s'(1)] s'(2,3) assms(1) show ?thesis by auto
qed

lemma batch_bounds_partition:
  assumes "1 \<le> bsz"
  shows "concat (map (\<lambda>(s, e). [s..e]) (batch_bounds start_page end_page bsz))
           = [start_page..end_page]"
  using range_up_partition [OF assms, of end_page start_page]
  by (simp add: batch_bounds_def o_def)

lemma worker_never:
  assumes "1 \<le> bsz" and "\<forall>k. \<not> is_set env k"
  shows "\<not> was_cancelled (ocr_worker_thread env pdf start_page end_page bsz)"
  unfolding worker_cancelled(1) [OF assms(1)]
  by (rule batch_loop_never [OF assms(2)]) simp

lemma example_env_never [simp]: "is_set (example_env (\<lambda>k. False)) k = False"
  by (simp add: example_env_def)

lemma example_env_load:
  assumes "s \<le> e"
  shows "load_batch (example_env flag) pdf s e = Inr [s..e]"
proof -
  from assms have "[s..e] = s # [s + 1..e]" by (simp add: upto_rec1)
  then show ?thesis by (simp add: load_batch_def example_env_def)
qed

lemma cancel_before_second_batch:
  assumes bs: "1 \<le> bsz" and two: "start_page + bsz \<le> end_page"
    and pb: "process_batch env pdf end_page bsz (end_page - start_page + 1) start_page init_wstate
               = (fl1, st1)"
    and nc1: "\<not> was_cancelled st1" and s: "is_set env (reads st1)"
  shows "was_cancelled (ocr_worker_thread env pdf start_page end_page bsz) \<and>
         final_status (ocr_worker_thread env pdf start_page end_page bsz)
           = ''OCR process cancelled by user.'' \<and>
         appends (trace (ocr_worker_thread env pdf start_page end_page bsz))
           = [batch_commit env pdf start_page (start_page + bsz - 1)] \<and>
         renders_of (trace (ocr_worker_thread env pdf start_page end_page bsz))
           = [(start_page, start_page + bsz - 1)]"
proof -
  let ?t = "end_page - start_page + 1"
  have r1: "range_up start_page (end_page + 1) bsz
              = start_page # range_up (start_page + bsz) (end_page + 1) bsz"
    using bs two by (subst range_up.simps) simp
  have r2: "range_up (start_page + bsz) (end_page + 1) bsz
              = (start_page + bsz) # range_up (start_page + bsz + bsz) (end_page + 1) bsz"
    using bs two by (subst range_up.simps) simp
  have ni: "\<not> was_cancelled init_wstate" by simp
  from process_batch_flag [OF pb ni] nc1 have f: "fl1 = Next" by (cases fl1) simp_all
  have m: "min (start_page + bsz - 1) end_page = start_page + bsz - 1"
    using two by simp
  note d = process_batch_done [OF pb ni nc1, unfolded m]
  have e: "batch_loop env pdf end_page bsz ?t (range_up start_page (end_page + 1) bsz) init_wstate
             = cancel ''OCR process cancelled by user.'' (snd (check_cancel env st1))"
    unfolding r1 r2 using pb f process_batch_set [OF s] by simp
  show ?thesis
    unfolding worker_cancelled [OF bs] e using d by (simp add: Let_def)
qed

text \<open>
  C1. In every run: the run is cancelled exactly when a read of the flag answered "set";
  then the final status is one of the two cancellation messages; nothing follows the read
  that saw the flag set but the report of the final status, so no batch is committed after
  it; what a cancelled run has appended is exactly the commits of the first \<open>k\<close> batches,
  for a \<open>k\<close> below the number of batches, each one whole; and a round of the batch loop
  that ends cancelled leaves the loop and appends nothing, whatever pages it had finished.
  In particular, when batch 1 is committed and the flag is set at the next read (the check
  before batch 2 is loaded), only batch 1 is rendered and the results hold exactly the
  commit of batch 1.
\<close>

theorem C1_cancellation:
  assumes bs: "1 \<le> batch_size"
    and w: "w = ocr_worker_thread env pdf start_page end_page batch_size"
  shows "(was_cancelled w \<longleftrightarrow> IsSet True \<in> set (trace w)) \<and>
         (was_cancelled w \<longrightarrow>
            final_status w \<in> {''OCR process cancelled by user.'', ''OCR cancelled.''}) \<and>
         (\<forall>pre post. trace w = pre @ IsSet True # post \<longrightarrow>
            post = [UpdateStatus (final_status w)] \<and> appends post = []) \<and>
         (was_cancelled w \<longrightarrow>
            (\<exists>k < length (batch_bounds start_page end_page batch_size).
               appends (trace w) =
                 map (\<lambda>(s, e). batch_commit env pdf s e)
                   (take k (batch_bounds start_page end_page batch_size)))) \<and>
         (\<forall>st s fl st'.
            \<not> was_cancelled st \<and>
            process_batch env pdf end_page batch_size (end_page - start_page + 1) s st = (fl, st') \<and>
            was_cancelled st' \<longrightarrow>
            fl = Break \<and> appends (trace st') = appends (trace st)) \<and>
         (\<forall>fl1 st1.
            start_page + batch_size \<le> end_page \<and>
            process_batch env pdf end_page batch_size (end_page - start_page + 1) start_page
              init_wstate = (fl1, st1) \<and>
            \<not> was_cancelled st1 \<and> is_set env (reads st1) \<longrightarrow>
            was_cancelled w \<and>
            final_status w = ''OCR process cancelled by user.'' \<and>
            renders_of (trace w) = [(start_page, start_page + batch_size - 1)] \<and>
            appends (trace w) = [batch_commit env pdf start_page (start_page + batch_size - 1)] \<and>
            results_text_after r (trace w)
              = results_text_after r [batch_commit env pdf start_page (start_page + batch_size - 1)])"
proof -
  let ?st1 = "batch_loop env pdf end_page batch_size (end_page - start_page + 1)
                  (range_up start_page (end_page + 1) batch_size) init_wstate"
  note wc = worker_cancelled [OF bs, of env pdf start_page end_page, folded w]
  have inv: "cancel_inv ?st1"
    using init_wstate_inv by (intro batch_loop_inv) simp_all
  have tr: "trace w = trace ?st1 @ [UpdateStatus (final_status w)]" by (rule wc(2))
  have a: "was_cancelled w \<longleftrightarrow> IsSet True \<in> set (trace w)"
  proof (cases "was_cancelled ?st1")
    case True
    with inv have "trace ?st1 \<noteq> []" "last (trace ?st1) = IsSet True"
      by (simp_all add: cancel_inv_def)
    then have "IsSet True \<in> set (trace ?st1)" using last_in_set by metis
    with True wc(1) tr show ?thesis by simp
  next
    case False
    with inv have "IsSet True \<notin> set (trace ?st1)" by (simp add: cancel_inv_def)
    with False wc(1) tr show ?thesis by simp
  qed
  have b: "was_cancelled w \<longrightarrow>
            final_status w \<in> {''OCR process cancelled by user.'', ''OCR cancelled.''}"
    using inv wc(1) wc(4) by (auto simp: cancel_inv_def Let_def)
  have c: "post = [UpdateStatus (final_status w)] \<and> appends post = []"
    if d: "trace w = pre @ IsSet True # post" for pre post
  proof -
    from d have "IsSet True \<in> set (trace w)" by simp
    with a wc(1) have c1: "was_cancelled ?st1" by simp
    with inv have ne: "trace ?st1 \<noteq> []" and la: "last (trace ?st1) = IsSet True"
      and nb: "IsSet True \<notin> set (butlast (trace ?st1))"
      by (simp_all add: cancel_inv_def)
    from ne la have "trace ?st1 = butlast (trace ?st1) @ [IsSet True]"
      using append_butlast_last_id by metis
    with tr have "trace w = butlast (trace ?st1) @ IsSet True # [UpdateStatus (final_status w)]"
      by simp
    with d have "butlast (trace ?st1) @ IsSet True # [UpdateStatus (final_status w)]
                   = pre @ IsSet True # post"
      by simp
    moreover have "IsSet True \<notin> set [UpdateStatus (final_status w)]" by simp
    ultimately have "post = [UpdateStatus (final_status w)]"
      using nb append_Cons_eq_iff [of "IsSet True" "butlast (trace ?st1)"
            "[UpdateStatus (final_status w)]" pre post]
      by simp
    then show ?thesis by simp
  qed
  have e: "\<exists>k < length (batch_bounds start_page end_page batch_size).
               appends (trace w) =
                 map (\<lambda>(s, e). batch_commit env pdf s e)
                   (take k (batch_bounds start_page end_page batch_size))"
    if "was_cancelled w"
  proof -
    from that wc(1) have c1: "was_cancelled ?st1" by simp
    have "\<not> was_cancelled init_wstate" by simp
    from batch_loop_cancelled [OF this c1] obtain k where
      k: "k < length (range_up start_page (end_page + 1) batch_size)"
      "appends (trace ?st1) =
         appends (trace init_wstate)
           @ map (\<lambda>s. batch_commit env pdf s (min (s + batch_size - 1) end_page))
               (take k (range_up start_page (end_page + 1) batch_size))"
      by blast
    from k(2) tr have "appends (trace w) =
                 map (\<lambda>(s, e). batch_commit env pdf s e)
                   (take k (batch_bounds start_page end_page batch_size))"
      by (simp add: batch_bounds_def take_map o_def)
    moreover from k(1) have "k < length (batch_bounds start_page end_page batch_size)"
      by (simp add: batch_bounds_def)
    ultimately show ?thesis by blast
  qed
  have f: "fl = Break \<and> appends (trace st') = appends (trace st)"
    if "\<not> was_cancelled st"
      "process_batch env pdf end_page batch_size (end_page - start_page + 1) s st = (fl, st')"
      "was_cancelled st'" for st s fl st'
    using process_batch_flag [OF that(2,1)] process_batch_cancelled [OF that(2,1,3)] that(3)
    by simp
  have g: "was_cancelled w \<and>
            final_status w = ''OCR process cancelled by user.'' \<and>
            renders_of (trace w) = [(start_page, start_page + batch_size - 1)] \<and>
            appends (trace w) = [batch_commit env pdf start_page (start_page + batch_size - 1)] \<and>
            results_text_after r (trace w)
              = results_text_after r [batch_commit env pdf start_page (start_page + batch_size - 1)]"
    if "start_page + batch_size \<le> end_page"
      "process_batch env pdf end_page batch_size (end_page - start_page + 1) start_page
         init_wstate = (fl1, st1)"
      "\<not> was_cancelled st1" "is_set env (reads st1)" for fl1 st1
    using cancel_before_second_batch [OF bs that, folded w]
      results_text_appends [of r "trace w"]
    by simp
  from a b c e f g show ?thesis by blast
qed

theorem C1_cancellation_witness:
  "was_cancelled (ocr_worker_thread (example_env (\<lambda>k. 7 \<le> k)) ''f.pdf'' 1 4 2) \<and>
   IsSet True \<in> set (trace (ocr_worker_thread (example_env (\<lambda>k. 7 \<le> k)) ''f.pdf'' 1 4 2)) \<and>
   final_status (ocr_worker_thread (example_env (\<lambda>k. 7 \<le> k)) ''f.pdf'' 1 4 2)
     = ''OCR process cancelled by user.'' \<and>
   renders_of (trace (ocr_worker_thread (example_env (\<lambda>k. 7 \<le> k)) ''f.pdf'' 1 4 2)) = [(1, 2)] \<and>
   results_text_after [] (trace (ocr_worker_thread (example_env (\<lambda>k. 7 \<le> k)) ''f.pdf'' 1 4 2))
     = ''--- Page 1 ---'' @ NL @ ''text of page 1'' @ NL @ NL
       @ ''--- Page 2 ---'' @ NL @ ''text of page 2'' @ NL \<and>
   ocr_pages_of (trace (ocr_worker_thread (example_env (\<lambda>k. 11 \<le> k)) ''f.pdf'' 1 4 2))
     = [1, 2, 3] \<and>
   appends (trace (ocr_worker_thread (example_env (\<lambda>k. 11 \<le> k)) ''f.pdf'' 1 4 2))
     = [AppendBatch (''--- Page 1 ---'' @ NL @ ''text of page 1'' @ NL @ NL
                     @ ''--- Page 2 ---'' @ NL @ ''text of page 2'' @ NL)]"
proof -
  let ?E = "example_env (\<lambda>k. 7 \<le> k)"
  let ?W = "ocr_worker_thread ?E ''f.pdf'' 1 4 2"
  let ?P = "process_batch ?E ''f.pdf'' 4 2 (4 - 1 + 1) 1 init_wstate"
  have bs: "(1::int) \<le> 2" by simp
  note inst = C1_cancellation [OF bs refl, of ?E "''f.pdf''" 1 4 "[]"]
  have two: "(1::int) + 2 \<le> 4" by simp
  have p: "?P = (fst ?P, snd ?P)" by simp
  have nc1: "\<not> was_cancelled (snd ?P)" by code_simp
  have rd: "is_set ?E (reads (snd ?P))" by code_simp
  from inst two p nc1 rd
  have 1: "was_cancelled ?W \<and> final_status ?W = ''OCR process cancelled by user.'' \<and>
           renders_of (trace ?W) = [(1, 1 + 2 - 1)] \<and>
           results_text_after [] (trace ?W)
             = results_text_after [] [batch_commit ?E ''f.pdf'' 1 (1 + 2 - 1)]"
    by blast
  with inst have 2: "IsSet True \<in> set (trace ?W)" by blast
  have 3: "results_text_after [] [batch_commit ?E ''f.pdf'' 1 (1 + 2 - 1)]
             = ''--- Page 1 ---'' @ NL @ ''text of page 1'' @ NL @ NL
               @ ''--- Page 2 ---'' @ NL @ ''text of page 2'' @ NL"
    by code_simp
  have 4: "ocr_pages_of (trace (ocr_worker_thread (example_env (\<lambda>k. 11 \<le> k)) ''f.pdf'' 1 4 2))
             = [1, 2, 3]"
    by code_simp
  have 5: "appends (trace (ocr_worker_thread (example_env (\<lambda>k. 11 \<le> k)) ''f.pdf'' 1 4 2))
     = [AppendBatch (''--- Page 1 ---'' @ NL @ ''text of page 1'' @ NL @ NL
                     @ ''--- Page 2 ---'' @ NL @ ''text of page 2'' @ NL)]"
    by code_simp
  from 1 2 3 4 5 show ?thesis by simp
qed

lemma example_env_load_le:
  "load_batch (example_env flag) pdf s e = Inr imgs \<Longrightarrow> int (length imgs) \<le> e - s + 1"
proof (cases "s \<le> e")
  case True
  assume "load_batch (example_env flag) pdf s e = Inr imgs"
  with example_env_load [OF True, of flag pdf] have "imgs = [s..e]" by simp
  with True show ?thesis by simp
next
  case False
  assume "load_batch (example_env flag) pdf s e = Inr imgs"
  with False show ?thesis by (simp add: load_batch_def example_env_def)
qed

text \<open>
  C2. For a run on pages \<open>start_page\<close> to \<open>end_page\<close> with a batch size of at least 1:
  the batches are consecutive, cover every page of the range exactly once and hold at most
  \<open>batch_size\<close> pages each. In every run (cancelled or not, whatever the renderer and the
  backend do) the batches are rendered in that order and the commits are those of the first
  batches, in that order; when the renderer never returns more images than the pages asked
  for, the pages handed to recognition are strictly increasing and lie in the range. A run
  that is not cancelled renders and commits every batch; with a renderer that returns one
  image per page, it hands exactly the pages \<open>start_page\<close> to \<open>end_page\<close> to recognition,
  in order. The range 1 to 25 with batch size 10 gives the batches 1-10, 11-20 and 21-25.
\<close>

theorem C2_batches:
  assumes bs: "1 \<le> batch_size"
    and range: "1 \<le> start_page" "start_page \<le> end_page"
    and w: "w = ocr_worker_thread env pdf start_page end_page batch_size"
    and bb: "bb = batch_bounds start_page end_page batch_size"
  shows "concat (map (\<lambda>(s, e). [s..e]) bb) = [start_page..end_page] \<and>
         (\<forall>(s, e) \<in> set bb. s \<le> e \<and> e - s + 1 \<le> batch_size) \<and>
         (\<exists>k \<le> length bb. renders_of (trace w) = take k bb) \<and>
         (\<exists>k \<le> length bb. appends (trace w) = map (\<lambda>(s, e). batch_commit env pdf s e) (take k bb)) \<and>
         ((\<forall>s e imgs. load_batch env pdf s e = Inr imgs \<longrightarrow> int (length imgs) \<le> e - s + 1)
            \<longrightarrow> sorted_wrt (<) (ocr_pages_of (trace w))
                \<and> set (ocr_pages_of (trace w)) \<subseteq> {start_page..end_page}) \<and>
         (\<not> was_cancelled w \<longrightarrow>
            renders_of (trace w) = bb \<and>
            appends (trace w) = map (\<lambda>(s, e). batch_commit env pdf s e) bb \<and>
            ocr_pages_of (trace w) = concat (map (\<lambda>(s, e). batch_pages env pdf s e) bb)) \<and>
         (\<not> was_cancelled w \<and>
          (\<forall>(s, e) \<in> set bb. \<exists>imgs. load_batch env pdf s e = Inr imgs
                                     \<and> int (length imgs) = e - s + 1)
            \<longrightarrow> ocr_pages_of (trace w) = [start_page..end_page]) \<and>
         batch_bounds 1 25 10 = [(1, 10), (11, 20), (21, 25)]"
proof -
  let ?starts = "range_up start_page (end_page + 1) batch_size"
  let ?t = "end_page - start_page + 1"
  let ?st1 = "batch_loop env pdf end_page batch_size ?t ?starts init_wstate"
  note wc = worker_cancelled [OF bs, of env pdf start_page end_page, folded w]
  have bbm: "bb = map (\<lambda>s. (s, min (s + batch_size - 1) end_page)) ?starts"
    by (simp add: bb batch_bounds_def)
  have p1: "concat (map (\<lambda>(s, e). [s..e]) bb) = [start_page..end_page]"
    unfolding bb by (rule batch_bounds_partition [OF bs])
  have p2: "\<forall>(s, e) \<in> set bb. s \<le> e \<and> e - s + 1 \<le> batch_size"
    unfolding bb using batch_bounds_sizes [OF bs] by blast
  have p3: "\<exists>k \<le> length bb. renders_of (trace w) = take k bb"
  proof -
    from batch_loop_renders [of ?starts env pdf end_page batch_size ?t init_wstate]
    obtain k where "k \<le> length ?starts"
      "renders_of (trace ?st1) = renders_of (trace init_wstate)
         @ map (\<lambda>s. (s, min (s + batch_size - 1) end_page)) (take k ?starts)"
      by blast
    with wc(2) have "k \<le> length bb \<and> renders_of (trace w) = take k bb"
      by (simp add: bbm take_map)
    then show ?thesis by blast
  qed
  have fin: "appends (trace w) = map (\<lambda>(s, e). batch_commit env pdf s e) bb \<and>
              renders_of (trace w) = bb \<and>
              ocr_pages_of (trace w) = concat (map (\<lambda>(s, e). batch_pages env pdf s e) bb)"
    if "\<not> was_cancelled w"
  proof -
    from that wc(1) have nc: "\<not> was_cancelled ?st1" by simp
    have "\<not> was_cancelled init_wstate" by simp
    from batch_loop_done [OF this nc] wc(2) show ?thesis
      by (simp add: bbm o_def)
  qed
  have p4: "\<exists>k \<le> length bb. appends (trace w) = map (\<lambda>(s, e). batch_commit env pdf s e) (take k bb)"
  proof (cases "was_cancelled w")
    case True
    with wc(1) have c1: "was_cancelled ?st1" by simp
    have "\<not> was_cancelled init_wstate" by simp
    from batch_loop_cancelled [OF this c1] obtain k where
      k: "k < length ?starts"
      "appends (trace ?st1) = appends (trace init_wstate)
           @ map (\<lambda>s. batch_commit env pdf s (min (s + batch_size - 1) end_page)) (take k ?starts)"
      by blast
    with wc(2) have "k \<le> length bb \<and>
        appends (trace w) = map (\<lambda>(s, e). batch_commit env pdf s e) (take k bb)"
      by (simp add: bbm take_map o_def)
    then show ?thesis by blast
  next
    case False
    from fin [OF False]
    have "length bb \<le> length bb \<and>
        appends (trace w) = map (\<lambda>(s, e). batch_commit env pdf s e) (take (length bb) bb)"
      by simp
    then show ?thesis by blast
  qed
  have p5: "sorted_wrt (<) (ocr_pages_of (trace w))
                \<and> set (ocr_pages_of (trace w)) \<subseteq> {start_page..end_page}"
    if le: "\<forall>s e imgs. load_batch env pdf s e = Inr imgs \<longrightarrow> int (length imgs) \<le> e - s + 1"
  proof -
    from batch_loop_ocr_sorted [OF bs le, of end_page ?t start_page init_wstate]
    obtain xs where "ocr_pages_of (trace ?st1) = ocr_pages_of (trace init_wstate) @ xs"
      "sorted_wrt (<) xs" "\<forall>x \<in> set xs. start_page \<le> x \<and> x \<le> end_page"
      by blast
    with wc(2) show ?thesis by auto
  qed
  have p7: "ocr_pages_of (trace w) = [start_page..end_page]"
    if nc: "\<not> was_cancelled w"
      and ex: "\<forall>(s, e) \<in> set bb. \<exists>imgs. load_batch env pdf s e = Inr imgs
                                     \<and> int (length imgs) = e - s + 1"
  proof -
    have "batch_pages env pdf s e = [s..e]" if "(s, e) \<in> set bb" for s e
    proof -
      from ex that obtain imgs where "load_batch env pdf s e = Inr imgs"
        "int (length imgs) = e - s + 1"
        by blast
      then show ?thesis by (simp add: batch_pages_def map_upt_upto)
    qed
    then have "map (\<lambda>(s, e). batch_pages env pdf s e) bb = map (\<lambda>(s, e). [s..e]) bb"
      by (intro map_cong) auto
    with fin [OF nc] p1 show ?thesis by simp
  qed
  have p8: "batch_bounds 1 25 10 = [(1, 10), (11, 20), (21, 25)]"
    by code_simp
  from p1 p2 p3 p4 p5 fin p7 p8 show ?thesis by blast
qed

theorem C2_batches_witness:
  "batch_bounds 1 25 10 = [(1, 10), (11, 20), (21, 25)] \<and>
   concat (map (\<lambda>(s, e). [s..e]) (batch_bounds 1 25 10)) = [1..25] \<and>
   \<not> was_cancelled (ocr_worker_thread (example_env (\<lambda>k. False)) ''f.pdf'' 1 25 10) \<and>
   renders_of (trace (ocr_worker_thread (example_env (\<lambda>k. False)) ''f.pdf'' 1 25 10))
     = [(1, 10), (11, 20), (21, 25)] \<and>
   ocr_pages_of (trace (ocr_worker_thread (example_env (\<lambda>k. False)) ''f.pdf'' 1 25 10))
     = [1..25] \<and>
   sorted_wrt (<) (ocr_pages_of (trace (ocr_worker_thread (example_env (\<lambda>k. False)) ''f.pdf'' 1 25 10))) \<and>
   appends (trace (ocr_worker_thread (example_env (\<lambda>k. False)) ''f.pdf'' 1 25 10))
     = [batch_commit (example_env (\<lambda>k. False)) ''f.pdf'' 1 10,
        batch_commit (example_env (\<lambda>k. False)) ''f.pdf'' 11 20,
        batch_commit (example_env (\<lambda>k. False)) ''f.pdf'' 21 25]"
proof -
  let ?E = "example_env (\<lambda>k. False)"
  let ?W = "ocr_worker_thread ?E ''f.pdf'' 1 25 10"
  have h: "(1::int) \<le> 10" "(1::int) \<le> 1" "(1::int) \<le> 25" by simp_all
  note inst = C2_batches [OF h refl refl, of ?E "''f.pdf''"]
  have nc: "\<not> was_cancelled ?W"
    by (rule worker_never) simp_all
  have bb: "batch_bounds 1 25 10 = [(1, 10), (11, 20), (21, 25)]"
    by code_simp
  have ex: "\<forall>(s, e) \<in> set (batch_bounds 1 25 10).
              \<exists>imgs. load_batch ?E ''f.pdf'' s e = Inr imgs \<and> int (length imgs) = e - s + 1"
    unfolding bb by (simp add: example_env_load)
  have le: "\<forall>s e imgs. load_batch ?E ''f.pdf'' s e = Inr imgs \<longrightarrow> int (length imgs) \<le> e - s + 1"
    by (simp add: example_env_load_le)
  from inst nc ex have 1: "ocr_pages_of (trace ?W) = [1..25]" by blast
  from inst nc have 2: "renders_of (trace ?W) = batch_bounds 1 25 10 \<and>
      appends (trace ?W) = map (\<lambda>(s, e). batch_commit ?E ''f.pdf'' s e) (batch_bounds 1 25 10)"
    by blast
  from inst le have 3: "sorted_wrt (<) (ocr_pages_of (trace ?W))" by blast
  from inst have 4: "concat (map (\<lambda>(s, e). [s..e]) (batch_bounds 1 25 10)) = [1..25]" by blast
  from nc 1 2 3 4 bb show ?thesis by simp
qed

lemma join_explicit:
  "xs \<noteq> [] \<Longrightarrow> join sep xs = concat (map (\<lambda>b. b @ sep) (butlast xs)) @ last xs"
  by (induction sep xs rule: join.induct) simp_all

lemma join_contains:
  "x \<in> set xs \<Longrightarrow> \<exists>pre post. join sep xs = pre @ x @ post"
proof (induction sep xs rule: join.induct)
  case (1 sep)
  then show ?case by simp
next
  case (2 sep y)
  then have "join sep [y] = [] @ x @ []" by simp
  then show ?case by blast
next
  case (3 sep y z zs)
  show ?case
  proof (cases "x = y")
    case True
    then have "join sep (y # z # zs) = [] @ x @ (sep @ join sep (z # zs))" by simp
    then show ?thesis by blast
  next
    case False
    with 3 obtain pre post where "join sep (z # zs) = pre @ x @ post" by auto
    then have "join sep (y # z # zs) = (y @ sep @ pre) @ x @ post" by simp
    then show ?thesis by blast
  qed
qed

text \<open>
  C3. A round of the batch loop that is not cancelled, on a batch that was rendered: the
  loop goes on to the next batch, and the batch is committed as one append. The text of
  that append is the blocks of the images in page order, one after the other with a
  newline between two blocks; there is one block per image, and the block of every page
  stands in the committed text. The block of a page depends on that page alone; a page
  whose recognition raised has the block with the text \<open>Error:\<close> and the message, and
  is flagged as an error.
\<close>

theorem C3_page_failure:
  assumes "\<not> was_cancelled st"
    and "process_batch env pdf end_page batch_size t s st = (fl, st')"
    and "\<not> was_cancelled st'"
    and "load_batch env pdf s (min (s + batch_size - 1) end_page) = Inr imgs"
  shows "fl = Next \<and>
         appends (trace st') = appends (trace st) @ [AppendBatch (join NL (batch_blocks env s 0 imgs))] \<and>
         appends (trace st') =
           appends (trace st)
             @ [AppendBatch (concat (map (\<lambda>b. b @ NL) (butlast (batch_blocks env s 0 imgs)))
                             @ last (batch_blocks env s 0 imgs))] \<and>
         (\<forall>k < length imgs. \<exists>pre post.
            appends (trace st') =
              appends (trace st)
                @ [AppendBatch (pre @ (''--- Page '' @ str_int (s + int k) @ '' ---'' @ NL
                                       @ fst (page_outcome env (s + int k) (imgs ! k)) @ NL)
                                @ post)]) \<and>
         length (batch_blocks env s 0 imgs) = length imgs \<and>
         (\<forall>k < length imgs.
            batch_blocks env s 0 imgs ! k
              = ''--- Page '' @ str_int (s + int k) @ '' ---'' @ NL
                  @ fst (page_outcome env (s + int k) (imgs ! k)) @ NL) \<and>
         (\<forall>k < length imgs. \<forall>err. respond env (imgs ! k) = Inl err \<longrightarrow>
            page_outcome env (s + int k) (imgs ! k) = (''Error: '' @ err, True))"
proof -
  let ?bl = "batch_blocks env s 0 imgs"
  from process_batch_flag [OF assms(2,1)] assms(3) have a: "fl = Next" by (cases fl) simp_all
  from process_batch_done [OF assms(2,1,3)] assms(4)
  have b: "appends (trace st') = appends (trace st) @ [AppendBatch (join NL ?bl)]"
    by (simp add: batch_commit_def)
  have c: "length ?bl = length imgs"
    by (simp add: batch_blocks_def)
  from load_batch_nonempty [OF assms(4)] c have ne: "?bl \<noteq> []" by auto
  from b join_explicit [OF ne, of NL]
  have b2: "appends (trace st') =
           appends (trace st) @ [AppendBatch (concat (map (\<lambda>b. b @ NL) (butlast ?bl)) @ last ?bl)]"
    by simp
  have d: "?bl ! k
              = ''--- Page '' @ str_int (s + int k) @ '' ---'' @ NL
                  @ fst (page_outcome env (s + int k) (imgs ! k)) @ NL"
    if "k < length imgs" for k
    using that by (simp add: batch_blocks_def enumerate_eq_zip page_block_def)
  have b3: "\<exists>pre post.
            appends (trace st') =
              appends (trace st)
                @ [AppendBatch (pre @ (''--- Page '' @ str_int (s + int k) @ '' ---'' @ NL
                                       @ fst (page_outcome env (s + int k) (imgs ! k)) @ NL)
                                @ post)]"
    if k: "k < length imgs" for k
  proof -
    from k c have "?bl ! k \<in> set ?bl" by simp
    from join_contains [OF this, of NL] obtain pre post where
      "join NL ?bl = pre @ ?bl ! k @ post"
      by blast
    with b d [OF k] have "appends (trace st') =
              appends (trace st)
                @ [AppendBatch (pre @ (''--- Page '' @ str_int (s + int k) @ '' ---'' @ NL
                                       @ fst (page_outcome env (s + int k) (imgs ! k)) @ NL)
                                @ post)]"
      by simp
    then show ?thesis by blast
  qed
  have e: "page_outcome env n im = (''Error: '' @ err, True)"
    if "respond env im = Inl err" for n im err
    using that
    by (simp add: page_outcome_def ocr_page_def extract_text_def startswith_def cleanup_def)
  from a b b2 b3 c d e show ?thesis by blast
qed

theorem C3_page_failure_witness:
  "fst (process_batch (example_env (\<lambda>k. False)) ''f.pdf'' 10 10 10 1 init_wstate) = Next \<and>
   appends (trace (snd (process_batch (example_env (\<lambda>k. False)) ''f.pdf'' 10 10 10 1 init_wstate)))
     = [AppendBatch
          (''--- Page 1 ---'' @ NL @ ''text of page 1'' @ NL @ NL
           @ ''--- Page 2 ---'' @ NL @ ''text of page 2'' @ NL @ NL
           @ ''--- Page 3 ---'' @ NL @ ''text of page 3'' @ NL @ NL
           @ ''--- Page 4 ---'' @ NL @ ''text of page 4'' @ NL @ NL
           @ ''--- Page 5 ---'' @ NL @ ''text of page 5'' @ NL @ NL
           @ ''--- Page 6 ---'' @ NL @ ''text of page 6'' @ NL @ NL
           @ ''--- Page 7 ---'' @ NL @ ''Error: backend down'' @ NL @ NL
           @ ''--- Page 8 ---'' @ NL @ ''text of page 8'' @ NL @ NL
           @ ''--- Page 9 ---'' @ NL @ ''text of page 9'' @ NL @ NL
           @ ''--- Page 10 ---'' @ NL @ ''text of page 10'' @ NL)] \<and>
   length (batch_blocks (example_env (\<lambda>k. False)) 1 0 [1, 2, 3, 4, 5, 6, 7, 8, 9, 10]) = 10 \<and>
   batch_blocks (example_env (\<lambda>k. False)) 1 0 [1, 2, 3, 4, 5, 6, 7, 8, 9, 10] ! 6
     = ''--- Page 7 ---'' @ NL @ ''Error: backend down'' @ NL \<and>
   page_outcome (example_env (\<lambda>k. False)) 7 7 = (''Error: backend down'', True)"
proof -
  let ?E = "example_env (\<lambda>k. False)"
  let ?P = "process_batch ?E ''f.pdf'' 10 10 10 1 init_wstate"
  let ?imgs = "[1, 2, 3, 4, 5, 6, 7, 8, 9, 10] :: int list"
  have a: "\<not> was_cancelled init_wstate" by simp
  have b: "?P = (fst ?P, snd ?P)" by simp
  have c: "\<not> was_cancelled (snd ?P)"
    by (rule process_batch_never) simp_all
  have d: "load_batch ?E ''f.pdf'' 1 (min (1 + 10 - 1) 10) = Inr ?imgs"
    by code_simp
  note inst = C3_page_failure [OF a b c d]
  have e: "concat (map (\<lambda>b. b @ NL) (butlast (batch_blocks ?E 1 0 ?imgs)))
             @ last (batch_blocks ?E 1 0 ?imgs)
           = ''--- Page 1 ---'' @ NL @ ''text of page 1'' @ NL @ NL
             @ ''--- Page 2 ---'' @ NL @ ''text of page 2'' @ NL @ NL
             @ ''--- Page 3 ---'' @ NL @ ''text of page 3'' @ NL @ NL
             @ ''--- Page 4 ---'' @ NL @ ''text of page 4'' @ NL @ NL
             @ ''--- Page 5 ---'' @ NL @ ''text of page 5'' @ NL @ NL
             @ ''--- Page 6 ---'' @ NL @ ''text of page 6'' @ NL @ NL
             @ ''--- Page 7 ---'' @ NL @ ''Error: backend down'' @ NL @ NL
             @ ''--- Page 8 ---'' @ NL @ ''text of page 8'' @ NL @ NL
             @ ''--- Page 9 ---'' @ NL @ ''text of page 9'' @ NL @ NL
             @ ''--- Page 10 ---'' @ NL @ ''text of page 10'' @ NL"
    by code_simp
  have f: "6 < length ?imgs \<and> respond ?E (?imgs ! 6) = Inl ''backend down''"
    by (simp add: example_env_def)
  have g: "batch_blocks ?E 1 0 ?imgs ! 6 = ''--- Page 7 ---'' @ NL @ ''Error: backend down'' @ NL"
    by code_simp
  have 1: "fst ?P = Next"
    by (rule inst [THEN conjunct1])
  have 2: "appends (trace (snd ?P))
             = [AppendBatch
                  (''--- Page 1 ---'' @ NL @ ''text of page 1'' @ NL @ NL
                   @ ''--- Page 2 ---'' @ NL @ ''text of page 2'' @ NL @ NL
                   @ ''--- Page 3 ---'' @ NL @ ''text of page 3'' @ NL @ NL
                   @ ''--- Page 4 ---'' @ NL @ ''text of page 4'' @ NL @ NL
                   @ ''--- Page 5 ---'' @ NL @ ''text of page 5'' @ NL @ NL
                   @ ''--- Page 6 ---'' @ NL @ ''text of page 6'' @ NL @ NL
                   @ ''--- Page 7 ---'' @ NL @ ''Error: backend down'' @ NL @ NL
                   @ ''--- Page 8 ---'' @ NL @ ''text of page 8'' @ NL @ NL
                   @ ''--- Page 9 ---'' @ NL @ ''text of page 9'' @ NL @ NL
                   @ ''--- Page 10 ---'' @ NL @ ''text of page 10'' @ NL)]"
    using inst [THEN conjunct2, THEN conjunct2, THEN conjunct1] e by simp
  have 3: "length (batch_blocks ?E 1 0 ?imgs) = 10"
    using inst [THEN conjunct2, THEN conjunct2, THEN conjunct2, THEN conjunct2, THEN conjunct1]
    by simp
  from f inst [THEN conjunct2, THEN conjunct2, THEN conjunct2, THEN conjunct2, THEN conjunct2,
               THEN conjunct2]
  have "page_outcome ?E (1 + int 6) (?imgs ! 6) = (''Error: '' @ ''backend down'', True)"
    by blast
  then have 4: "page_outcome ?E 7 7 = (''Error: backend down'', True)"
    by simp
  from 1 2 3 g 4 show ?thesis by blast
qed

lemma worker_done:
  assumes bs: "1 \<le> batch_size"
    and nc: "\<not> was_cancelled (ocr_worker_thread env pdf start_page end_page batch_size)"
  shows "appends (trace (ocr_worker_thread env pdf start_page end_page batch_size))
           = map (\<lambda>(s, e). batch_commit env pdf s e) (batch_bounds start_page end_page batch_size)"
    and "any_batch_processed_successfully (ocr_worker_thread env pdf start_page end_page batch_size)
           = list_ex (\<lambda>(s, e). batch_clean env pdf s e)
               (batch_bounds start_page end_page batch_size)"
    and "final_status (ocr_worker_thread env pdf start_page end_page batch_size)
           = (if any_batch_processed_successfully
                   (ocr_worker_thread env pdf start_page end_page batch_size)
              then ''OCR process completed.''
              else ''OCR finished, but encountered errors or no text was processed.'')"
proof -
  let ?starts = "range_up start_page (end_page + 1) batch_size"
  let ?t = "end_page - start_page + 1"
  let ?st1 = "batch_loop env pdf end_page batch_size ?t ?starts init_wstate"
  note wc = worker_cancelled [OF bs, of env pdf start_page end_page]
  from nc wc(1) have nc1: "\<not> was_cancelled ?st1" by simp
  have ni: "\<not> was_cancelled init_wstate" by simp
  note d = batch_loop_done [OF ni nc1]
  from d wc(2)
  show "appends (trace (ocr_worker_thread env pdf start_page end_page batch_size))
           = map (\<lambda>(s, e). batch_commit env pdf s e) (batch_bounds start_page end_page batch_size)"
    by (simp add: batch_bounds_def o_def)
  from d have "any_batch_processed_successfully ?st1 =
          list_ex (\<lambda>s. batch_clean env pdf s (min (s + batch_size - 1) end_page)) ?starts"
    by simp
  also have "\<dots> = list_ex (\<lambda>(s, e). batch_clean env pdf s e)
                      (batch_bounds start_page end_page batch_size)"
    by (simp add: batch_bounds_def list_ex_iff)
  finally show "any_batch_processed_successfully
        (ocr_worker_thread env pdf start_page end_page batch_size)
      = list_ex (\<lambda>(s, e). batch_clean env pdf s e) (batch_bounds start_page end_page batch_size)"
    using wc(3) by simp
  from wc(3) wc(4) nc1
  show "final_status (ocr_worker_thread env pdf start_page end_page batch_size)
           = (if any_batch_processed_successfully
                   (ocr_worker_thread env pdf start_page end_page batch_size)
              then ''OCR process completed.''
              else ''OCR finished, but encountered errors or no text was processed.'')"
    by (simp add: Let_def)
qed

text \<open>
  C6, as the code has it. A run that ends without cancellation reports
  \<open>OCR process completed.\<close> exactly when the any-successful-batch flag is set, that is,
  when at least one batch was rendered and had no page flagged as an error; otherwise it
  reports \<open>OCR finished, but encountered errors or no text was processed.\<close> Errors in
  other pages or batches do not change a completed status.
\<close>

theorem C6_final_status:
  assumes bs: "1 \<le> batch_size"
    and w: "w = ocr_worker_thread env pdf start_page end_page batch_size"
    and nc: "\<not> was_cancelled w"
  shows "final_status w =
           (if list_ex (\<lambda>(s, e). batch_clean env pdf s e)
                 (batch_bounds start_page end_page batch_size)
            then ''OCR process completed.''
            else ''OCR finished, but encountered errors or no text was processed.'') \<and>
         (final_status w = ''OCR process completed.''
            \<longleftrightarrow> any_batch_processed_successfully w)"
proof -
  from nc w have nc': "\<not> was_cancelled (ocr_worker_thread env pdf start_page end_page batch_size)"
    by simp
  note d = worker_done [OF bs nc', folded w]
  from d(2) d(3) show ?thesis by simp
qed

theorem C6_final_status_witness:
  "\<not> was_cancelled (ocr_worker_thread (example_env (\<lambda>k. False)) ''f.pdf'' 1 10 10) \<and>
   final_status (ocr_worker_thread (example_env (\<lambda>k. False)) ''f.pdf'' 1 10 10)
     = ''OCR finished, but encountered errors or no text was processed.'' \<and>
   \<not> any_batch_processed_successfully
       (ocr_worker_thread (example_env (\<lambda>k. False)) ''f.pdf'' 1 10 10) \<and>
   \<not> was_cancelled (ocr_worker_thread (example_env (\<lambda>k. False)) ''f.pdf'' 1 6 3) \<and>
   final_status (ocr_worker_thread (example_env (\<lambda>k. False)) ''f.pdf'' 1 6 3)
     = ''OCR process completed.'' \<and>
   any_batch_processed_successfully
     (ocr_worker_thread (example_env (\<lambda>k. False)) ''f.pdf'' 1 6 3)"
proof -
  let ?E = "example_env (\<lambda>k. False)"
  have bs: "(1::int) \<le> 10" "(1::int) \<le> 3" by simp_all
  have nc1: "\<not> was_cancelled (ocr_worker_thread ?E ''f.pdf'' 1 10 10)"
    by (rule worker_never) simp_all
  have nc2: "\<not> was_cancelled (ocr_worker_thread ?E ''f.pdf'' 1 6 3)"
    by (rule worker_never) simp_all
  have c1: "\<not> list_ex (\<lambda>(s, e). batch_clean ?E ''f.pdf'' s e) (batch_bounds 1 10 10)"
    by code_simp
  have c2: "list_ex (\<lambda>(s, e). batch_clean ?E ''f.pdf'' s e) (batch_bounds 1 6 3)"
    by code_simp
  note i1 = C6_final_status [OF bs(1) refl nc1]
  note i2 = C6_final_status [OF bs(2) refl nc2]
  from i1 [THEN conjunct1] c1
  have f1: "final_status (ocr_worker_thread ?E ''f.pdf'' 1 10 10)
             = ''OCR finished, but encountered errors or no text was processed.''"
    by simp
  have "''OCR finished, but encountered errors or no text was processed.''
          \<noteq> ''OCR process completed.''"
    by simp
  with f1 i1 [THEN conjunct2]
  have a1: "\<not> any_batch_processed_successfully (ocr_worker_thread ?E ''f.pdf'' 1 10 10)"
    by metis
  from i2 [THEN conjunct1] c2
  have f2: "final_status (ocr_worker_thread ?E ''f.pdf'' 1 6 3) = ''OCR process completed.''"
    by simp
  with i2 [THEN conjunct2]
  have a2: "any_batch_processed_successfully (ocr_worker_thread ?E ''f.pdf'' 1 6 3)"
    by blast
  from nc1 nc2 f1 a1 f2 a2 show ?thesis by blast
qed

text \<open>
  The claim C6 as it is written fails on a run over pages 6 to 8 in batches of one page:
  the run is not cancelled, page 7 fails and its error block is committed, and the final
  status is still \<open>OCR process completed.\<close>
\<close>

theorem C6_counterexample:
  "\<not> was_cancelled (ocr_worker_thread (example_env (\<lambda>k. False)) ''f.pdf'' 6 8 1) \<and>
   snd (page_outcome (example_env (\<lambda>k. False)) 7 7) \<and>
   appends (trace (ocr_worker_thread (example_env (\<lambda>k. False)) ''f.pdf'' 6 8 1))
     = [AppendBatch (''--- Page 6 ---'' @ NL @ ''text of page 6'' @ NL),
        AppendBatch (''--- Page 7 ---'' @ NL @ ''Error: backend down'' @ NL),
        AppendBatch (''--- Page 8 ---'' @ NL @ ''text of page 8'' @ NL)] \<and>
   final_status (ocr_worker_thread (example_env (\<lambda>k. False)) ''f.pdf'' 6 8 1)
     = ''OCR process completed.''"
proof -
  let ?E = "example_env (\<lambda>k. False)"
  have bs: "(1::int) \<le> 1" by simp
  have nc: "\<not> was_cancelled (ocr_worker_thread ?E ''f.pdf'' 6 8 1)"
    by (rule worker_never) simp_all
  note d = worker_done [OF bs nc]
  have a: "map (\<lambda>(s, e). batch_commit ?E ''f.pdf'' s e) (batch_bounds 6 8 1)
             = [AppendBatch (''--- Page 6 ---'' @ NL @ ''text of page 6'' @ NL),
                AppendBatch (''--- Page 7 ---'' @ NL @ ''Error: backend down'' @ NL),
                AppendBatch (''--- Page 8 ---'' @ NL @ ''text of page 8'' @ NL)]"
    by code_simp
  have b: "list_ex (\<lambda>(s, e). batch_clean ?E ''f.pdf'' s e) (batch_bounds 6 8 1)"
    by code_simp
  have c: "snd (page_outcome ?E 7 7)"
    by code_simp
  from d(2) b have e: "any_batch_processed_successfully (ocr_worker_thread ?E ''f.pdf'' 6 8 1)"
    by simp
  with d(3) have f: "final_status (ocr_worker_thread ?E ''f.pdf'' 6 8 1) = ''OCR process completed.''"
    by simp
  from d(1) a have g: "appends (trace (ocr_worker_thread ?E ''f.pdf'' 6 8 1))
             = [AppendBatch (''--- Page 6 ---'' @ NL @ ''text of page 6'' @ NL),
                AppendBatch (''--- Page 7 ---'' @ NL @ ''Error: backend down'' @ NL),
                AppendBatch (''--- Page 8 ---'' @ NL @ ''text of page 8'' @ NL)]"
    by simp
  from nc c g f show ?thesis by blast
qed

section \<open>Properties of the normalization and of the start of a run\<close>

lemma lstrip_spaces: "\<forall>c \<in> set ws. is_space c \<Longrightarrow> lstrip (ws @ x) = lstrip x"
  by (simp add: lstrip_def dropWhile_append2)

lemma rstrip_spaces: "\<forall>c \<in> set ws. is_space c \<Longrightarrow> rstrip (x @ ws) = rstrip x"
  using dropWhile_append2 [of "rev ws" is_space "rev x"] by (simp add: rstrip_def)

lemma lstrip_id: "x \<noteq> [] \<Longrightarrow> \<not> is_space (hd x) \<Longrightarrow> lstrip x = x"
  by (cases x) (simp_all add: lstrip_def)

lemma rstrip_id: "x \<noteq> [] \<Longrightarrow> \<not> is_space (last x) \<Longrightarrow> rstrip x = x"
  by (cases x rule: rev_cases) (simp_all add: rstrip_def)

lemma strip_id: "x \<noteq> [] \<Longrightarrow> \<not> is_space (hd x) \<Longrightarrow> \<not> is_space (last x) \<Longrightarrow> strip x = x"
  by (simp add: strip_def lstrip_id rstrip_id)

lemma length_lstrip: "length (lstrip x) \<le> length x"
  by (simp add: lstrip_def length_dropWhile_le)

lemma length_rstrip: "length (rstrip x) \<le> length x"
  using length_dropWhile_le [of is_space "rev x"] by (simp add: rstrip_def)

lemma lstrip_shorter: "b \<noteq> [] \<Longrightarrow> is_space (hd b) \<Longrightarrow> length (lstrip b) < length b"
  using length_dropWhile_le [of is_space "tl b"]
  by (cases b) (simp_all add: lstrip_def)

lemma rstrip_shorter: "b \<noteq> [] \<Longrightarrow> is_space (last b) \<Longrightarrow> length (rstrip b) < length b"
  using length_dropWhile_le [of is_space "rev (butlast b)"]
  by (cases b rule: rev_cases) (simp_all add: rstrip_def)

lemma stripped_ends:
  assumes "strip b = b" and "b \<noteq> []"
  shows "\<not> is_space (hd b) \<and> \<not> is_space (last b)"
proof -
  have h: "\<not> is_space (hd b)"
  proof
    assume "is_space (hd b)"
    from lstrip_shorter [OF assms(2) this] length_rstrip [of "lstrip b"]
    have "length (strip b) < length b" by (simp add: strip_def)
    with assms(1) show False by simp
  qed
  with assms(2) have "lstrip b = b" by (rule lstrip_id)
  with assms(1) have r: "rstrip b = b" by (simp add: strip_def)
  have "\<not> is_space (last b)"
  proof
    assume "is_space (last b)"
    from rstrip_shorter [OF assms(2) this] r show False by simp
  qed
  with h show ?thesis by simp
qed

lemma not_space_backtick [simp]: "\<not> is_space (CHR 0x60)"
  by (simp add: is_space_def)

lemma strip_inner:
  assumes ws: "\<forall>c \<in> set ws1. is_space c" "\<forall>c \<in> set ws2. is_space c" and b: "strip b = b"
  shows "strip (ws1 @ b @ ws2 @ ''```'') = (if b = [] then ''```'' else b @ ws2 @ ''```'')"
    and "strip (b @ ws2) = b"
proof -
  show "strip (ws1 @ b @ ws2 @ ''```'') = (if b = [] then ''```'' else b @ ws2 @ ''```'')"
  proof (cases "b = []")
    case True
    have "lstrip (ws1 @ ws2 @ ''```'') = lstrip (ws2 @ ''```'')"
      by (rule lstrip_spaces [OF ws(1)])
    also have "\<dots> = lstrip ''```''" by (rule lstrip_spaces [OF ws(2)])
    also have "\<dots> = ''```''" by (simp add: lstrip_def)
    finally show ?thesis using True by (simp add: strip_def rstrip_def)
  next
    case False
    from stripped_ends [OF b False] have h: "\<not> is_space (hd b)" by simp
    have "lstrip (ws1 @ b @ ws2 @ ''```'') = lstrip (b @ ws2 @ ''```'')"
      by (rule lstrip_spaces [OF ws(1)])
    also have "\<dots> = b @ ws2 @ ''```''"
      using False h by (intro lstrip_id) simp_all
    finally have "lstrip (ws1 @ b @ ws2 @ ''```'') = b @ ws2 @ ''```''" .
    moreover have "rstrip (b @ ws2 @ ''```'') = b @ ws2 @ ''```''"
      by (intro rstrip_id) simp_all
    ultimately show ?thesis using False by (simp add: strip_def)
  qed
  show "strip (b @ ws2) = b"
  proof (cases "b = []")
    case True
    have "lstrip ws2 = []" using ws(2) by (simp add: lstrip_def)
    with True show ?thesis by (simp add: strip_def rstrip_def)
  next
    case False
    from stripped_ends [OF b False] have h: "\<not> is_space (hd b)" "\<not> is_space (last b)"
      by simp_all
    have "lstrip (b @ ws2) = b @ ws2" using False h by (intro lstrip_id) simp_all
    moreover have "rstrip (b @ ws2) = rstrip b" by (rule rstrip_spaces [OF ws(2)])
    moreover have "rstrip b = b" using False h by (intro rstrip_id)
    ultimately show ?thesis by (simp add: strip_def)
  qed
qed

lemma cleanup_plain_fence:
  assumes ws: "\<forall>c \<in> set ws1. is_space c" "\<forall>c \<in> set ws2. is_space c" and b: "strip b = b"
    and ne: "ws1 \<noteq> []"
  shows "cleanup (''```'' @ ws1 @ b @ ws2 @ ''```'') = b"
proof -
  let ?w = "''```'' @ ws1 @ b @ ws2 @ ''```''"
  have 1: "\<not> startswith ?w ''Error:''" by (simp add: startswith_def)
  have 2: "strip ?w = ?w" by (intro strip_id) simp_all
  from ne ws(1) obtain c cs where c: "ws1 = c # cs" "is_space c" by (cases ws1) auto
  then have "c \<noteq> CHR ''t''" by (auto simp: is_space_def)
  with c have 3: "\<not> startswith ?w ''```text''" by (simp add: startswith_def)
  have 4: "startswith ?w ''```''" by (simp add: startswith_def)
  have 5: "drop 3 ?w = ws1 @ b @ ws2 @ ''```''" by simp
  note s = strip_inner [OF ws b]
  show ?thesis
  proof (cases "b = []")
    case True
    with 1 2 3 4 5 s show ?thesis
      by (simp add: cleanup_def Let_def endswith_def strip_def lstrip_def rstrip_def)
  next
    case False
    have e: "endswith (b @ ws2 @ ''```'') ''```''" by (simp add: endswith_def)
    have t: "take (length (b @ ws2 @ ''```'') - 3) (b @ ws2 @ ''```'') = b @ ws2" by simp
    from 1 2 3 4 5 s False e t show ?thesis
      by (simp add: cleanup_def Let_def del: append_assoc take_append drop_append)
  qed
qed

lemma cleanup_text_fence:
  assumes ws: "\<forall>c \<in> set ws1. is_space c" "\<forall>c \<in> set ws2. is_space c" and b: "strip b = b"
    and nb: "\<not> startswith b ''`''"
  shows "cleanup (''```text'' @ ws1 @ b @ ws2 @ ''```'') = b"
proof -
  let ?w = "''```text'' @ ws1 @ b @ ws2 @ ''```''"
  have 1: "\<not> startswith ?w ''Error:''" by (simp add: startswith_def)
  have 2: "strip ?w = ?w" by (intro strip_id) simp_all
  have 3: "startswith ?w ''```text''" by (simp add: startswith_def)
  have 5: "drop (length ''```text'') ?w = ws1 @ b @ ws2 @ ''```''" by simp
  note s = strip_inner [OF ws b]
  show ?thesis
  proof (cases "b = []")
    case True
    with 1 2 3 5 s show ?thesis
      by (simp add: cleanup_def Let_def endswith_def startswith_def strip_def lstrip_def rstrip_def)
  next
    case False
    then obtain c cs where c: "b = c # cs" by (cases b) auto
    with nb have "c \<noteq> CHR 0x60" by (simp add: startswith_def)
    with c have n: "\<not> startswith (b @ ws2 @ ''```'') ''```''" by (simp add: startswith_def)
    have e: "endswith (b @ ws2 @ ''```'') ''```''" by (simp add: endswith_def)
    have t: "take (length (b @ ws2 @ ''```'') - 3) (b @ ws2 @ ''```'') = b @ ws2" by simp
    from 1 2 3 5 s False n e t show ?thesis
      by (simp add: cleanup_def Let_def del: append_assoc take_append drop_append)
  qed
qed

lemma cleanup_error: "startswith t ''Error:'' \<Longrightarrow> cleanup t = t"
  by (simp add: cleanup_def)

text \<open>
  C4, as the code has it. The shape of a backend response is detected in a fixed order: a
  string is taken as it is; otherwise a string attribute \<open>content\<close> wins over everything
  else; otherwise a string attribute \<open>text\<close>; otherwise a truthy attribute \<open>choices\<close>,
  where a non-empty string at \<open>choices[0].message.content\<close> is the text. A value with
  none of these attributes (no truthy \<open>choices\<close> either) is stringified, is not flagged as
  an error and its cleanup does not fail. A value whose \<open>choices\<close> is truthy is never
  stringified as a whole. When \<open>choices[0]\<close> cannot be taken, the text is
  \<open>Err parse choices:\<close> with the message of the exception and the page is flagged as an
  error. When \<open>choices[0]\<close> has no truthy \<open>message.content\<close> and no attribute \<open>text\<close>,
  it is \<open>choices[0]\<close> that is stringified. A truthy \<open>choices[0].message.content\<close>, and
  otherwise an attribute \<open>choices[0].text\<close>, is taken whatever its type; when it is not a
  string the cleanup raises, and the page gets the text \<open>Error processing page N:\<close> with
  the message of the exception and is flagged as an error. The cleanup removes a wrapping
  pair of triple-backtick fences and a leading \<open>```text\<close> tag around a body that is
  trimmed. The two responses of the spec both normalize to \<open>Hello\<close>.
\<close>

theorem C4_normalization:
  "extract_text T (PStr s) = (PStr s, startswith s ''Error:'') \<and>
   (py_getattr v ''content'' = Some (PStr c) \<longrightarrow> extract_text T v = (PStr c, False)) \<and>
   ((\<forall>c. py_getattr v ''content'' \<noteq> Some (PStr c)) \<and> py_getattr v ''text'' = Some (PStr t) \<longrightarrow>
      extract_text T v = (PStr t, False)) \<and>
   ((\<forall>c. py_getattr v ''content'' \<noteq> Some (PStr c)) \<and>
    (\<forall>t. py_getattr v ''text'' \<noteq> Some (PStr t)) \<and>
    py_getattr v ''choices'' = Some (PList (ch # rest)) \<and>
    py_getattr ch ''message'' = Some m \<and>
    py_getattr m ''content'' = Some (PStr c) \<and> c \<noteq> [] \<longrightarrow>
      extract_text T v = (PStr c, False)) \<and>
   (\<not> is_str v \<and>
    (\<forall>c. py_getattr v ''content'' \<noteq> Some (PStr c)) \<and>
    (\<forall>t. py_getattr v ''text'' \<noteq> Some (PStr t)) \<and>
    (\<forall>x. py_getattr v ''choices'' = Some x \<longrightarrow> \<not> truthy x) \<longrightarrow>
      extract_text T v = (PStr (T v), False) \<and>
      cleanup_page_text (fst (extract_text T v)) = Inr (cleanup (T v))) \<and>
   ((\<forall>c. py_getattr v ''content'' \<noteq> Some (PStr c)) \<and>
    (\<forall>t. py_getattr v ''text'' \<noteq> Some (PStr t)) \<and>
    py_getattr v ''choices'' = Some x \<and> truthy x \<and> getitem0 x = Inl e \<longrightarrow>
      extract_text T v = (PStr (''Err parse choices: '' @ e), True) \<and>
      cleanup_page_text (fst (extract_text T v)) = Inr (cleanup (''Err parse choices: '' @ e))) \<and>
   ((\<forall>c. py_getattr v ''content'' \<noteq> Some (PStr c)) \<and>
    (\<forall>t. py_getattr v ''text'' \<noteq> Some (PStr t)) \<and>
    py_getattr v ''choices'' = Some x \<and> truthy x \<and> getitem0 x = Inr ch \<and>
    \<not> truthy (getattr_default (getattr_default ch ''message'') ''content'') \<and>
    py_getattr ch ''text'' = None \<longrightarrow>
      extract_text T v = (PStr (py_str T ch), False) \<and>
      cleanup_page_text (fst (extract_text T v)) = Inr (cleanup (py_str T ch))) \<and>
   ((\<forall>c. py_getattr v ''content'' \<noteq> Some (PStr c)) \<and>
    (\<forall>t. py_getattr v ''text'' \<noteq> Some (PStr t)) \<and>
    py_getattr v ''choices'' = Some x \<and> truthy x \<and> getitem0 x = Inr ch \<and>
    getattr_default (getattr_default ch ''message'') ''content'' = cont \<and> truthy cont \<longrightarrow>
      extract_text T v = (cont, False) \<and>
      (\<not> is_str cont \<longrightarrow> isl (cleanup_page_text (fst (extract_text T v))))) \<and>
   ((\<forall>c. py_getattr v ''content'' \<noteq> Some (PStr c)) \<and>
    (\<forall>t. py_getattr v ''text'' \<noteq> Some (PStr t)) \<and>
    py_getattr v ''choices'' = Some x \<and> truthy x \<and> getitem0 x = Inr ch \<and>
    \<not> truthy (getattr_default (getattr_default ch ''message'') ''content'') \<and>
    py_getattr ch ''text'' = Some tv \<longrightarrow>
      extract_text T v = (tv, False) \<and>
      (\<not> is_str tv \<longrightarrow> isl (cleanup_page_text (fst (extract_text T v))))) \<and>
   (respond env img = Inr v \<and>
    cleanup_page_text (fst (extract_text (str_other env) v)) = Inl ex \<longrightarrow>
      page_outcome env n img = (''Error processing page '' @ str_int n @ '': '' @ ex, True)) \<and>
   cleanup_page_text (PStr s) = Inr (cleanup s) \<and>
   ((\<forall>c \<in> set ws1. is_space c) \<and> (\<forall>c \<in> set ws2. is_space c) \<and> strip b = b \<and> ws1 \<noteq> [] \<longrightarrow>
      cleanup (''```'' @ ws1 @ b @ ws2 @ ''```'') = b) \<and>
   ((\<forall>c \<in> set ws1. is_space c) \<and> (\<forall>c \<in> set ws2. is_space c) \<and> strip b = b \<and>
    \<not> startswith b ''`'' \<longrightarrow>
      cleanup (''```text'' @ ws1 @ b @ ws2 @ ''```'') = b) \<and>
   cleanup_page_text
     (fst (extract_text T
        (PObj ''Response''
           [(''choices'',
             PList [PObj ''Choice''
                      [(''message'', PObj ''Message'' [(''content'', PStr ''Hello'')])]])])))
     = Inr ''Hello'' \<and>
   cleanup_page_text (fst (extract_text T (PStr (''```text'' @ NL @ ''Hello'' @ NL @ ''```''))))
     = Inr ''Hello''"
proof -
  have a: "extract_text T (PStr s) = (PStr s, startswith s ''Error:'')"
    by (simp add: extract_text_def)
  have gs: "py_getattr v n = Some (PStr x) \<Longrightarrow> \<not> is_str v" for n x
    by (cases v) simp_all
  have b: "extract_text T v = (PStr c, False)" if "py_getattr v ''content'' = Some (PStr c)"
    using that gs [OF that]
    by (simp add: extract_text_def py_hasattr_def getattr_default_def)
  have nstr: "(py_hasattr v n \<and> is_str (getattr_default v n)) = False"
    if "\<forall>c. py_getattr v n \<noteq> Some (PStr c)" for n
  proof (cases "py_getattr v n")
    case None
    then show ?thesis by (simp add: py_hasattr_def)
  next
    case (Some x)
    with that show ?thesis by (cases x) (simp_all add: getattr_default_def)
  qed
  have c: "extract_text T v = (PStr t, False)"
    if "\<forall>c. py_getattr v ''content'' \<noteq> Some (PStr c)" "py_getattr v ''text'' = Some (PStr t)"
  proof -
    from that(2) have y: "py_hasattr v ''text''" "getattr_default v ''text'' = PStr t"
      by (simp_all add: py_hasattr_def getattr_default_def)
    from gs [OF that(2)] have "is_str v = False" by simp
    then show ?thesis
      by (simp add: extract_text_def nstr [OF that(1)] y)
  qed
  have d: "extract_text T v = (PStr c, False)"
    if "\<forall>c. py_getattr v ''content'' \<noteq> Some (PStr c)"
      "\<forall>t. py_getattr v ''text'' \<noteq> Some (PStr t)"
      "py_getattr v ''choices'' = Some (PList (ch # rest))"
      "py_getattr ch ''message'' = Some m"
      "py_getattr m ''content'' = Some (PStr c)" "c \<noteq> []"
  proof -
    have ns: "is_str v = False" using that(3) by (cases v) simp_all
    have ec: "extract_choices T (PList (ch # rest)) = (PStr c, False)"
      using that(4,5,6) by (simp add: extract_choices_def getattr_default_def Let_def)
    from that(3)
    have y: "py_hasattr v ''choices''" "getattr_default v ''choices'' = PList (ch # rest)"
      by (simp_all add: py_hasattr_def getattr_default_def)
    show ?thesis
      by (simp add: extract_text_def ns nstr [OF that(1)] nstr [OF that(2)] y ec)
  qed
  have e: "extract_text T v = (PStr (T v), False) \<and>
           cleanup_page_text (fst (extract_text T v)) = Inr (cleanup (T v))"
    if "\<not> is_str v" "\<forall>c. py_getattr v ''content'' \<noteq> Some (PStr c)"
      "\<forall>t. py_getattr v ''text'' \<noteq> Some (PStr t)"
      "\<forall>x. py_getattr v ''choices'' = Some x \<longrightarrow> \<not> truthy x"
  proof -
    have nc: "(py_hasattr v ''choices'' \<and> truthy (getattr_default v ''choices'')) = False"
      using that(4) by (cases "py_getattr v ''choices''")
        (simp_all add: py_hasattr_def getattr_default_def)
    have ps: "py_str T v = T v" using that(1) by (cases v) simp_all
    from that(1) have ns: "is_str v = False" by simp
    have "extract_text T v = (PStr (T v), False)"
      by (simp add: extract_text_def ns nstr [OF that(2)] nstr [OF that(3)] nc ps)
    then show ?thesis by simp
  qed
  have ch: "is_str v = False" "py_hasattr v ''choices''" "getattr_default v ''choices'' = x"
    if "py_getattr v ''choices'' = Some x" for x
    using that by (cases v; simp add: py_hasattr_def getattr_default_def)+
  have e2: "extract_text T v = (PStr (''Err parse choices: '' @ e), True) \<and>
            cleanup_page_text (fst (extract_text T v)) = Inr (cleanup (''Err parse choices: '' @ e))"
    if "\<forall>c. py_getattr v ''content'' \<noteq> Some (PStr c)"
      "\<forall>t. py_getattr v ''text'' \<noteq> Some (PStr t)"
      "py_getattr v ''choices'' = Some x" "truthy x" "getitem0 x = Inl e"
  proof -
    have ec: "extract_choices T x = (PStr (''Err parse choices: '' @ e), True)"
      using that(5) by (simp add: extract_choices_def)
    have "extract_text T v = (PStr (''Err parse choices: '' @ e), True)"
      by (simp add: extract_text_def ch [OF that(3)] that(4) nstr [OF that(1)]
          nstr [OF that(2)] ec)
    then show ?thesis by simp
  qed
  have e3: "extract_text T v = (PStr (py_str T ch), False) \<and>
            cleanup_page_text (fst (extract_text T v)) = Inr (cleanup (py_str T ch))"
    if "\<forall>c. py_getattr v ''content'' \<noteq> Some (PStr c)"
      "\<forall>t. py_getattr v ''text'' \<noteq> Some (PStr t)"
      "py_getattr v ''choices'' = Some x" "truthy x" "getitem0 x = Inr ch"
      "\<not> truthy (getattr_default (getattr_default ch ''message'') ''content'')"
      "py_getattr ch ''text'' = None"
  proof -
    have ec: "extract_choices T x = (PStr (py_str T ch), False)"
      using that(5,6,7) by (simp add: extract_choices_def Let_def py_hasattr_def)
    have "extract_text T v = (PStr (py_str T ch), False)"
      by (simp add: extract_text_def ch [OF that(3)] that(4) nstr [OF that(1)]
          nstr [OF that(2)] ec)
    then show ?thesis by simp
  qed
  have nisl: "isl (cleanup_page_text p)" if "\<not> is_str p" for p
    using that by (cases p) (simp_all split: option.splits)
  have e4: "extract_text T v = (cont, False) \<and>
            (\<not> is_str cont \<longrightarrow> isl (cleanup_page_text (fst (extract_text T v))))"
    if "\<forall>c. py_getattr v ''content'' \<noteq> Some (PStr c)"
      "\<forall>t. py_getattr v ''text'' \<noteq> Some (PStr t)"
      "py_getattr v ''choices'' = Some x" "truthy x" "getitem0 x = Inr ch"
      "getattr_default (getattr_default ch ''message'') ''content'' = cont" "truthy cont"
  proof -
    have ec: "extract_choices T x = (cont, False)"
      using that(5,6,7) by (simp add: extract_choices_def Let_def)
    have "extract_text T v = (cont, False)"
      by (simp add: extract_text_def ch [OF that(3)] that(4) nstr [OF that(1)]
          nstr [OF that(2)] ec)
    then show ?thesis using nisl [of cont] by simp
  qed
  have e5: "extract_text T v = (tv, False) \<and>
            (\<not> is_str tv \<longrightarrow> isl (cleanup_page_text (fst (extract_text T v))))"
    if "\<forall>c. py_getattr v ''content'' \<noteq> Some (PStr c)"
      "\<forall>t. py_getattr v ''text'' \<noteq> Some (PStr t)"
      "py_getattr v ''choices'' = Some x" "truthy x" "getitem0 x = Inr ch"
      "\<not> truthy (getattr_default (getattr_default ch ''message'') ''content'')"
      "py_getattr ch ''text'' = Some tv"
  proof -
    have ec: "extract_choices T x = (tv, False)"
      using that(5,6,7) by (simp add: extract_choices_def Let_def py_hasattr_def getattr_default_def)
    have "extract_text T v = (tv, False)"
      by (simp add: extract_text_def ch [OF that(3)] that(4) nstr [OF that(1)]
          nstr [OF that(2)] ec)
    then show ?thesis using nisl [of tv] by simp
  qed
  have e6: "page_outcome env n img = (''Error processing page '' @ str_int n @ '': '' @ ex, True)"
    if "respond env img = Inr v"
      "cleanup_page_text (fst (extract_text (str_other env) v)) = Inl ex"
    using that by (simp add: page_outcome_def ocr_page_def)
  have f: "cleanup_page_text (PStr s) = Inr (cleanup s)" by simp
  have g: "cleanup (''```'' @ ws1 @ b @ ws2 @ ''```'') = b"
    if "\<forall>c \<in> set ws1. is_space c" "\<forall>c \<in> set ws2. is_space c" "strip b = b" "ws1 \<noteq> []"
    using that by (rule cleanup_plain_fence)
  have h: "cleanup (''```text'' @ ws1 @ b @ ws2 @ ''```'') = b"
    if "\<forall>c \<in> set ws1. is_space c" "\<forall>c \<in> set ws2. is_space c" "strip b = b"
      "\<not> startswith b ''`''"
    using that by (rule cleanup_text_fence)
  have i: "cleanup_page_text
     (fst (extract_text T
        (PObj ''Response''
           [(''choices'',
             PList [PObj ''Choice''
                      [(''message'', PObj ''Message'' [(''content'', PStr ''Hello'')])]])])))
     = Inr ''Hello''"
    by code_simp
  have j: "cleanup_page_text (fst (extract_text T (PStr (''```text'' @ NL @ ''Hello'' @ NL @ ''```''))))
     = Inr ''Hello''"
    by code_simp
  show ?thesis
    apply (intro conjI)
    subgoal by (rule a)
    subgoal using b by blast
    subgoal using c by blast
    subgoal using d by blast
    subgoal using e by blast
    subgoal using e2 by blast
    subgoal using e3 by blast
    subgoal using e4 by blast
    subgoal using e5 by blast
    subgoal using e6 by blast
    subgoal by (rule f)
    subgoal using g by blast
    subgoal using h by blast
    subgoal by (rule i)
    subgoal by (rule j)
    done
qed

theorem C4_normalization_witness:
  "extract_text (\<lambda>v. ''<object>'') (PStr ''plain'') = (PStr ''plain'', False) \<and>
   extract_text (\<lambda>v. ''<object>'')
     (PObj ''R'' [(''text'', PStr ''B''), (''content'', PStr ''A'')]) = (PStr ''A'', False) \<and>
   extract_text (\<lambda>v. ''<object>'')
     (PObj ''R'' [(''choices'', PList [PStr ''C'']), (''text'', PStr ''B'')]) = (PStr ''B'', False) \<and>
   extract_text (\<lambda>v. ''<object>'')
     (PObj ''R'' [(''choices'',
                   PList [PObj ''C'' [(''message'', PObj ''M'' [(''content'', PStr ''Hello'')])]])])
     = (PStr ''Hello'', False) \<and>
   extract_text (\<lambda>v. ''<object>'') (PObj ''R'' [(''content'', PNone)])
     = (PStr ''<object>'', False) \<and>
   extract_text (\<lambda>v. ''<object>'') unindexable_choices
     = (PStr (''Err parse choices: '' @ [CHR 0x27] @ ''Choices'' @ [CHR 0x27]
              @ '' object is not subscriptable''), True) \<and>
   extract_text (\<lambda>v. ''<object>'') (PObj ''R'' [(''choices'', PList [PObj ''C'' []])])
     = (PStr ''<object>'', False) \<and>
   extract_text (\<lambda>v. ''<object>'')
     (PObj ''R'' [(''choices'',
                   PList [PObj ''C'' [(''message'',
                                       PObj ''M'' [(''content'', PList [PStr ''Hello''])])]])])
     = (PList [PStr ''Hello''], False) \<and>
   extract_text (\<lambda>v. ''<object>'')
     (PObj ''R'' [(''choices'', PList [PObj ''C'' [(''text'', PNone)]])]) = (PNone, False) \<and>
   page_outcome
     \<lparr>is_set = (\<lambda>k. False), convert_from_path = (\<lambda>p s e. Inr [s..e]),
      respond = (\<lambda>im. Inr (PObj ''R'' [(''choices'', PList [PObj ''C'' [(''text'', PNone)]])])),
      str_other = (\<lambda>v. ''<object>'')\<rparr> 3 3
     = (''Error processing page 3: '' @ [CHR 0x27] @ ''NoneType'' @ [CHR 0x27]
        @ '' object has no attribute '' @ [CHR 0x27] @ ''startswith'' @ [CHR 0x27], True) \<and>
   cleanup (''```'' @ NL @ ''Hello'' @ NL @ ''```'') = ''Hello'' \<and>
   cleanup (''```text'' @ NL @ ''Hello'' @ NL @ ''```'') = ''Hello''"
proof -
  let ?T = "\<lambda>v::pyval. ''<object>''"
  let ?v1 = "PObj ''R'' [(''text'', PStr ''B''), (''content'', PStr ''A'')]"
  let ?v2 = "PObj ''R'' [(''choices'', PList [PStr ''C'']), (''text'', PStr ''B'')]"
  let ?ch = "PObj ''C'' [(''message'', PObj ''M'' [(''content'', PStr ''Hello'')])]"
  let ?v3 = "PObj ''R'' [(''choices'', PList [?ch])]"
  let ?v4 = "PObj ''R'' [(''content'', PNone)]"
  let ?x5 = "PObj ''Choices'' []"
  let ?e5 = "[CHR 0x27] @ ''Choices'' @ [CHR 0x27] @ '' object is not subscriptable''"
  let ?ch6 = "PObj ''C'' []"
  let ?v6 = "PObj ''R'' [(''choices'', PList [?ch6])]"
  let ?c7 = "PList [PStr ''Hello'']"
  let ?ch7 = "PObj ''C'' [(''message'', PObj ''M'' [(''content'', ?c7)])]"
  let ?v7 = "PObj ''R'' [(''choices'', PList [?ch7])]"
  let ?ch8 = "PObj ''C'' [(''text'', PNone)]"
  let ?v8 = "PObj ''R'' [(''choices'', PList [?ch8])]"
  let ?env = "\<lparr>is_set = (\<lambda>k::nat. False),
               convert_from_path = (\<lambda>(p::string) (s::int) (e::int). Inr [s..e] :: string + int list),
               respond = (\<lambda>im::int. Inr ?v8 :: string + pyval),
               str_other = ?T\<rparr>"
  let ?ex = "[CHR 0x27] @ ''NoneType'' @ [CHR 0x27] @ '' object has no attribute ''
             @ [CHR 0x27] @ ''startswith'' @ [CHR 0x27]"
  have 0: "extract_text ?T (PStr ''plain'') = (PStr ''plain'', False)"
    using C4_normalization [of ?T "''plain''", THEN conjunct1] by (simp add: startswith_def)
  have h1: "py_getattr ?v1 ''content'' = Some (PStr ''A'')" by simp
  from C4_normalization [of ?T _ ?v1 "''A''", THEN conjunct2, THEN conjunct1] h1
  have 1: "extract_text ?T ?v1 = (PStr ''A'', False)" by blast
  have h2: "(\<forall>c. py_getattr ?v2 ''content'' \<noteq> Some (PStr c)) \<and> py_getattr ?v2 ''text'' = Some (PStr ''B'')"
    by simp
  from C4_normalization [of ?T _ ?v2 _ "''B''", THEN conjunct2, THEN conjunct2, THEN conjunct1] h2
  have 2: "extract_text ?T ?v2 = (PStr ''B'', False)" by blast
  have h3: "(\<forall>c. py_getattr ?v3 ''content'' \<noteq> Some (PStr c)) \<and>
            (\<forall>t. py_getattr ?v3 ''text'' \<noteq> Some (PStr t)) \<and>
            py_getattr ?v3 ''choices'' = Some (PList (?ch # [])) \<and>
            py_getattr ?ch ''message'' = Some (PObj ''M'' [(''content'', PStr ''Hello'')]) \<and>
            py_getattr (PObj ''M'' [(''content'', PStr ''Hello'')]) ''content'' = Some (PStr ''Hello'') \<and>
            ''Hello'' \<noteq> []"
    by simp
  from C4_normalization [of ?T _ ?v3 "''Hello''" _ ?ch "[]" "PObj ''M'' [(''content'', PStr ''Hello'')]",
      THEN conjunct2, THEN conjunct2, THEN conjunct2, THEN conjunct1] h3
  have 3: "extract_text ?T ?v3 = (PStr ''Hello'', False)" by blast
  have h4: "\<not> is_str ?v4 \<and>
            (\<forall>c. py_getattr ?v4 ''content'' \<noteq> Some (PStr c)) \<and>
            (\<forall>t. py_getattr ?v4 ''text'' \<noteq> Some (PStr t)) \<and>
            (\<forall>x. py_getattr ?v4 ''choices'' = Some x \<longrightarrow> \<not> truthy x)"
    by simp
  from C4_normalization [of ?T _ ?v4,
      THEN conjunct2, THEN conjunct2, THEN conjunct2, THEN conjunct2, THEN conjunct1] h4
  have 4: "extract_text ?T ?v4 = (PStr ''<object>'', False)" by blast
  have h5: "(\<forall>c. py_getattr unindexable_choices ''content'' \<noteq> Some (PStr c)) \<and>
            (\<forall>t. py_getattr unindexable_choices ''text'' \<noteq> Some (PStr t)) \<and>
            py_getattr unindexable_choices ''choices'' = Some ?x5 \<and> truthy ?x5 \<and>
            getitem0 ?x5 = Inl ?e5"
    by (simp add: unindexable_choices_def)
  from C4_normalization [of ?T _ unindexable_choices _ _ _ _ _ ?x5 ?e5,
      THEN conjunct2, THEN conjunct2, THEN conjunct2, THEN conjunct2, THEN conjunct2,
      THEN conjunct1] h5
  have 5: "extract_text ?T unindexable_choices = (PStr (''Err parse choices: '' @ ?e5), True)"
    by blast
  have h6: "(\<forall>c. py_getattr ?v6 ''content'' \<noteq> Some (PStr c)) \<and>
            (\<forall>t. py_getattr ?v6 ''text'' \<noteq> Some (PStr t)) \<and>
            py_getattr ?v6 ''choices'' = Some (PList [?ch6]) \<and> truthy (PList [?ch6]) \<and>
            getitem0 (PList [?ch6]) = Inr ?ch6 \<and>
            \<not> truthy (getattr_default (getattr_default ?ch6 ''message'') ''content'') \<and>
            py_getattr ?ch6 ''text'' = None"
    by (simp add: getattr_default_def)
  from C4_normalization [of ?T _ ?v6 _ _ ?ch6 _ _ "PList [?ch6]",
      THEN conjunct2, THEN conjunct2, THEN conjunct2, THEN conjunct2, THEN conjunct2,
      THEN conjunct2, THEN conjunct1] h6
  have "extract_text ?T ?v6 = (PStr (py_str ?T ?ch6), False)" by blast
  then have 6: "extract_text ?T ?v6 = (PStr ''<object>'', False)" by simp
  have h7: "(\<forall>c. py_getattr ?v7 ''content'' \<noteq> Some (PStr c)) \<and>
            (\<forall>t. py_getattr ?v7 ''text'' \<noteq> Some (PStr t)) \<and>
            py_getattr ?v7 ''choices'' = Some (PList [?ch7]) \<and> truthy (PList [?ch7]) \<and>
            getitem0 (PList [?ch7]) = Inr ?ch7 \<and>
            getattr_default (getattr_default ?ch7 ''message'') ''content'' = ?c7 \<and> truthy ?c7"
    by (simp add: getattr_default_def)
  from C4_normalization [of ?T _ ?v7 _ _ ?ch7 _ _ "PList [?ch7]" _ ?c7,
      THEN conjunct2, THEN conjunct2, THEN conjunct2, THEN conjunct2, THEN conjunct2,
      THEN conjunct2, THEN conjunct2, THEN conjunct1] h7
  have 7: "extract_text ?T ?v7 = (?c7, False)" by blast
  have h8: "(\<forall>c. py_getattr ?v8 ''content'' \<noteq> Some (PStr c)) \<and>
            (\<forall>t. py_getattr ?v8 ''text'' \<noteq> Some (PStr t)) \<and>
            py_getattr ?v8 ''choices'' = Some (PList [?ch8]) \<and> truthy (PList [?ch8]) \<and>
            getitem0 (PList [?ch8]) = Inr ?ch8 \<and>
            \<not> truthy (getattr_default (getattr_default ?ch8 ''message'') ''content'') \<and>
            py_getattr ?ch8 ''text'' = Some PNone"
    by (simp add: getattr_default_def)
  from C4_normalization [of ?T _ ?v8 _ _ ?ch8 _ _ "PList [?ch8]" _ _ PNone,
      THEN conjunct2, THEN conjunct2, THEN conjunct2, THEN conjunct2, THEN conjunct2,
      THEN conjunct2, THEN conjunct2, THEN conjunct2, THEN conjunct1] h8
  have 8: "extract_text ?T ?v8 = (PNone, False)" by blast
  have s3: "str_int 3 = ''3''" by code_simp
  have h9: "respond ?env 3 = Inr ?v8 \<and>
            cleanup_page_text (fst (extract_text (str_other ?env) ?v8)) = Inl ?ex"
    using 8 by simp
  from C4_normalization [of _ _ ?v8 _ _ _ _ _ _ _ _ _ ?env 3 ?ex 3,
      THEN conjunct2, THEN conjunct2, THEN conjunct2, THEN conjunct2, THEN conjunct2,
      THEN conjunct2, THEN conjunct2, THEN conjunct2, THEN conjunct2, THEN conjunct1] h9
  have "page_outcome ?env 3 3 = (''Error processing page '' @ str_int 3 @ '': '' @ ?ex, True)"
    by blast
  then have 9: "page_outcome ?env 3 3 = (''Error processing page 3: '' @ ?ex, True)"
    by (simp add: s3)
  have h10: "(\<forall>c \<in> set NL. is_space c) \<and> (\<forall>c \<in> set NL. is_space c) \<and> strip ''Hello'' = ''Hello''
            \<and> NL \<noteq> []"
    by (simp add: NL_def is_space_def strip_def lstrip_def rstrip_def)
  from C4_normalization [of _ _ _ _ _ _ _ _ _ _ _ _ _ _ _ _ NL NL "''Hello''",
      THEN conjunct2, THEN conjunct2, THEN conjunct2, THEN conjunct2, THEN conjunct2,
      THEN conjunct2, THEN conjunct2, THEN conjunct2, THEN conjunct2, THEN conjunct2,
      THEN conjunct2, THEN conjunct1] h10
  have 10: "cleanup (''```'' @ NL @ ''Hello'' @ NL @ ''```'') = ''Hello''" by blast
  have h11: "(\<forall>c \<in> set NL. is_space c) \<and> (\<forall>c \<in> set NL. is_space c) \<and> strip ''Hello'' = ''Hello''
            \<and> \<not> startswith ''Hello'' ''`''"
    by (simp add: NL_def is_space_def strip_def lstrip_def rstrip_def startswith_def)
  from C4_normalization [of _ _ _ _ _ _ _ _ _ _ _ _ _ _ _ _ NL NL "''Hello''",
      THEN conjunct2, THEN conjunct2, THEN conjunct2, THEN conjunct2, THEN conjunct2,
      THEN conjunct2, THEN conjunct2, THEN conjunct2, THEN conjunct2, THEN conjunct2,
      THEN conjunct2, THEN conjunct2, THEN conjunct1] h11
  have 11: "cleanup (''```text'' @ NL @ ''Hello'' @ NL @ ''```'') = ''Hello''" by blast
  from 0 1 2 3 4 5 6 7 8 9 10 11 show ?thesis by blast
qed

text \<open>
  The claim C4 as it is written fails: a response with none of the recognized shapes is
  not always stringified. \<open>unindexable_choices\<close> is no string and has neither
  \<open>content\<close> nor \<open>text\<close>, and its \<open>choices\<close> has no element 0; the text of the page is an
  error annotation, not the stringified response, and the page is flagged as an error.
\<close>

theorem C4_counterexample:
  "is_str unindexable_choices = False \<and>
   py_getattr unindexable_choices ''content'' = None \<and>
   py_getattr unindexable_choices ''text'' = None \<and>
   getitem0 (getattr_default unindexable_choices ''choices'')
     = Inl ([CHR 0x27] @ ''Choices'' @ [CHR 0x27] @ '' object is not subscriptable'') \<and>
   extract_text (\<lambda>v. ''<object>'') unindexable_choices
     = (PStr (''Err parse choices: '' @ [CHR 0x27] @ ''Choices'' @ [CHR 0x27]
              @ '' object is not subscriptable''), True) \<and>
   extract_text (\<lambda>v. ''<object>'') unindexable_choices
     \<noteq> (PStr (py_str (\<lambda>v. ''<object>'') unindexable_choices), False)"
  by (simp add: unindexable_choices_def extract_text_def extract_choices_def py_hasattr_def
      getattr_default_def)

text \<open>
  C9. When no run is active, a file is loaded, the document has at least one page and both
  page entries are empty (or blank), \<open>run_ocr\<close> shows no message box and starts the worker
  on the pages 1 to \<open>total_pages\<close>.
\<close>

theorem C9_default_range:
  assumes "\<not> ocr_thread_alive a" and "pdf_file a = Some f" and "f \<noteq> []"
    and "0 < total_pages a"
    and "strip (from_entry a) = []" and "strip (to_entry a) = []"
  shows "run_ocr py_int a batch_size
           = Started 1 (total_pages a)
               (case batch_size of None \<Rightarrow> 10 | Some b \<Rightarrow> if b < 1 then 10 else b)"
  using assms by (simp add: run_ocr_def Let_def)

theorem C9_default_range_witness:
  "run_ocr (\<lambda>s. None)
     \<lparr>ocr_thread_alive = False, pdf_file = Some ''book.pdf'', total_pages = 12,
      from_entry = [], to_entry = ''  ''\<rparr> (Some 10)
   = Started 1 12 10"
proof -
  let ?a = "\<lparr>ocr_thread_alive = False, pdf_file = Some ''book.pdf'', total_pages = 12,
             from_entry = [], to_entry = ''  ''\<rparr>"
  have h: "\<not> ocr_thread_alive ?a" "pdf_file ?a = Some ''book.pdf''" "''book.pdf'' \<noteq> []"
    "0 < total_pages ?a" "strip (from_entry ?a) = []" "strip (to_entry ?a) = []"
    by (simp_all add: strip_def lstrip_def rstrip_def is_space_def)
  from C9_default_range [OF h, of "\<lambda>s. None" "Some 10"] show ?thesis by simp
qed

text \<open>
  C10. When the text taken from the recognition result is a string that begins with
  \<open>Error:\<close>, the cleanup leaves it as it is (no trimming, no fence stripping), and the
  page's labeled block holds it verbatim between the label line and the closing newline.
\<close>

theorem C10_error_text_verbatim:
  assumes "fst (extract_text (str_other env) (ocr_page env im)) = PStr t"
    and "startswith t ''Error:''"
  shows "cleanup t = t \<and>
         fst (page_outcome env n im) = t \<and>
         (\<forall>s i st results had brk st' res' had'.
            \<not> was_cancelled st \<and>
            process_page env s total_run i im st results had = (brk, st', res', had') \<and>
            \<not> was_cancelled st' \<longrightarrow>
            res' = results @ [''--- Page '' @ str_int (s + int i) @ '' ---'' @ NL @ t @ NL])"
proof -
  have a: "cleanup t = t" by (rule cleanup_error [OF assms(2)])
  have b: "fst (page_outcome env m im) = t" for m
    using assms(1) a by (simp add: page_outcome_def)
  have c: "res' = results @ [''--- Page '' @ str_int (s + int i) @ '' ---'' @ NL @ t @ NL]"
    if "\<not> was_cancelled st"
      "process_page env s total_run i im st results had = (brk, st', res', had')"
      "\<not> was_cancelled st'" for s i st results had brk st' res' had'
    using process_page_done(1) [OF that(2,1,3)] b [of "s + int i"]
    by (simp add: page_block_def)
  from a b c show ?thesis by blast
qed

theorem C10_error_text_verbatim_witness:
  "fst (page_outcome
         ((example_env (\<lambda>k. False))\<lparr>respond := (\<lambda>im. Inr (PStr ''Error: ```disk full```  ''))\<rparr>)
         3 0)
     = ''Error: ```disk full```  '' \<and>
   fst (snd (snd (process_page
         ((example_env (\<lambda>k. False))\<lparr>respond := (\<lambda>im. Inr (PStr ''Error: ```disk full```  ''))\<rparr>)
         3 1 0 0 init_wstate [] False)))
     = [''--- Page 3 ---'' @ NL @ ''Error: ```disk full```  '' @ NL]"
proof -
  let ?E = "(example_env (\<lambda>k. False))\<lparr>respond := (\<lambda>im. Inr (PStr ''Error: ```disk full```  ''))\<rparr>"
  let ?P = "process_page ?E 3 1 0 0 init_wstate [] False"
  have h1: "fst (extract_text (str_other ?E) (ocr_page ?E 0)) = PStr ''Error: ```disk full```  ''"
    by code_simp
  have h2: "startswith ''Error: ```disk full```  '' ''Error:''"
    by (simp add: startswith_def)
  note inst = C10_error_text_verbatim [OF h1 h2]
  have p: "?P = (fst ?P, fst (snd ?P), fst (snd (snd ?P)), snd (snd (snd ?P)))" by simp
  have ni: "\<not> was_cancelled init_wstate" by simp
  have nc: "\<not> was_cancelled (fst (snd ?P))"
    by (rule process_page_never) (simp_all add: example_env_def)
  from inst [of 3 1, THEN conjunct2, THEN conjunct2] ni p nc
  have "fst (snd (snd ?P)) = [] @ [''--- Page '' @ str_int (3 + int 0) @ '' ---'' @ NL
                                   @ ''Error: ```disk full```  '' @ NL]"
    by blast
  moreover have "str_int (3 + int 0) = ''3''" by code_simp
  ultimately have 2: "fst (snd (snd ?P)) = [''--- Page 3 ---'' @ NL @ ''Error: ```disk full```  '' @ NL]"
    by simp
  from inst [of 3 1, THEN conjunct2, THEN conjunct1] 2 show ?thesis by blast
qed

end
